theory Spec2Isabelle
  imports Complex_Main "HOL-Library.Char_ord" "HOL-Library.List_Lexorder"
    "HOL-Library.Product_Lexorder"
begin

section \<open>The data model: pandas frames as lists of typed columns\<close>

text \<open>
  The cleaning pipeline of \<^verbatim>\<open>src/app.py\<close> (\<^verbatim>\<open>clean_data\<close>, lines 91 to 122) is written
  against the pandas DataFrame interface. A frame is modelled as the ordered list of its
  columns; a column has a name, a dtype and its cells. The dtypes are the ones the two
  readers of \<^verbatim>\<open>upload\<close> (\<^verbatim>\<open>read_csv\<close>, \<^verbatim>\<open>read_excel\<close>) produce. A cell is a
  Python scalar: the missing marker (\<^verbatim>\<open>None\<close>, \<^verbatim>\<open>NaN\<close>, \<^verbatim>\<open>NaT\<close>), a string, an integer,
  a float, a boolean or a timestamp (the instant, in nanoseconds since the epoch).

  A float is a rational number or one of the two infinities; \<^verbatim>\<open>NaN\<close> is the missing
  marker. Which rationals are floats, and how a sum or a quotient is rounded, is the
  IEEE 754 arithmetic of the machine: it enters the model as a parameter, the rounding
  function, and every theorem holds for every rounding function.

  Idealisations, stated once: strings are byte strings, the three missing markers are
  one value, the row index is not modelled (a frame without columns has no rows), and
  the pandas operations follow pandas 1.x and 2.x, where strings live in object columns
  and \<^verbatim>\<open>df[col].fillna(..., inplace=True)\<close> writes through to the frame.
\<close>

datatype dtype = Object | Int64 | Float64 | BoolT | Datetime64

datatype float = NegInf | Fin rat | PosInf

datatype cell = NA | PyStr string | PyInt int | PyFloat float | PyBool bool | Timestamp int

datatype error = AttributeError

record column =
  name :: string
  dtype :: dtype
  cells :: "cell list"

type_synonym frame = "column list"

text \<open>Which cells a column of a given dtype can hold.\<close>

fun cell_ok :: "dtype \<Rightarrow> cell \<Rightarrow> bool" where
  "cell_ok Object c = True"
| "cell_ok Int64 c = (case c of PyInt i \<Rightarrow> True | _ \<Rightarrow> False)"
| "cell_ok Float64 c = (case c of PyFloat r \<Rightarrow> True | NA \<Rightarrow> True | _ \<Rightarrow> False)"
| "cell_ok BoolT c = (case c of PyBool b \<Rightarrow> True | _ \<Rightarrow> False)"
| "cell_ok Datetime64 c = (case c of Timestamp t \<Rightarrow> True | NA \<Rightarrow> True | _ \<Rightarrow> False)"

definition nrows :: "frame \<Rightarrow> nat" where
  "nrows df = (case df of [] \<Rightarrow> 0 | c # cs \<Rightarrow> length (cells c))"

definition row :: "frame \<Rightarrow> nat \<Rightarrow> cell list" where
  "row df i = map (\<lambda>c. cells c ! i) df"

definition rows :: "frame \<Rightarrow> cell list list" where
  "rows df = map (row df) [0..<nrows df]"

text \<open>
  A well-formed frame: column names are unique, all columns have the same number of
  cells, and every cell fits the dtype of its column.
\<close>

definition wf_frame :: "frame \<Rightarrow> bool" where
  "wf_frame df =
     (distinct (map name df) \<and>
      list_all (\<lambda>c. length (cells c) = nrows df) df \<and>
      list_all (\<lambda>c. list_all (cell_ok (dtype c)) (cells c)) df)"

section \<open>Stage 1: \<^verbatim>\<open>df = df.drop_duplicates()\<close>\<close>

text \<open>
  pandas compares the cells of object columns with Python equality, under which
  \<^verbatim>\<open>1 == 1.0 == True\<close>, and takes two missing markers as equal. \<open>py_key\<close> maps a cell
  to a representative of its equality class.
\<close>

fun py_key :: "cell \<Rightarrow> cell" where
  "py_key (PyInt i) = PyFloat (Fin (of_int i))"
| "py_key (PyBool b) = PyFloat (Fin (if b then 1 else 0))"
| "py_key c = c"

definition key_rows :: "frame \<Rightarrow> cell list list" where
  "key_rows df = map (map py_key) (rows df)"

text \<open>
  The positions that hold the first occurrence of their value: position \<open>i\<close> is kept
  unless an earlier position holds the same value (\<^verbatim>\<open>duplicated(keep='first')\<close>).
\<close>

definition first_idx :: "'k list \<Rightarrow> nat list" where
  "first_idx ks = filter (\<lambda>i. ks ! i \<notin> set (take i ks)) [0..<length ks]"

definition take_rows :: "nat list \<Rightarrow> column \<Rightarrow> column" where
  "take_rows idx c = c\<lparr>cells := map (\<lambda>i. cells c ! i) idx\<rparr>"

definition drop_duplicates :: "frame \<Rightarrow> frame" where
  "drop_duplicates df = map (take_rows (first_idx (key_rows df))) df"

section \<open>Column selection and column assignment\<close>

text \<open>\<^verbatim>\<open>df.select_dtypes(include=[...]).columns\<close>: the names of the columns of a dtype.\<close>

definition select_dtypes :: "(dtype \<Rightarrow> bool) \<Rightarrow> frame \<Rightarrow> string list" where
  "select_dtypes p df = map name (filter (\<lambda>c. p (dtype c)) df)"

definition is_object :: "dtype \<Rightarrow> bool" where
  "is_object d = (d = Object)"

definition is_number :: "dtype \<Rightarrow> bool" where
  "is_number d = (d = Int64 \<or> d = Float64)"

text \<open>
  \<^verbatim>\<open>df[col] = f(df[col])\<close>: the column of that name is replaced where it stands; the
  other columns are untouched.
\<close>

definition apply_col :: "string \<Rightarrow> (column \<Rightarrow> column) \<Rightarrow> frame \<Rightarrow> frame" where
  "apply_col n f df = map (\<lambda>c. if name c = n then f c else c) df"

text \<open>\<^verbatim>\<open>for col in cols: df[col] = f(df[col])\<close>\<close>

fun for_cols :: "string list \<Rightarrow> (column \<Rightarrow> column) \<Rightarrow> frame \<Rightarrow> frame" where
  "for_cols [] f df = df"
| "for_cols (n # ns) f df = for_cols ns f (apply_col n f df)"

section \<open>Stage 2: \<^verbatim>\<open>df[col] = df[col].str.strip()\<close>\<close>

text \<open>
  The \<^verbatim>\<open>.str\<close> accessor first infers the type of the non-missing values
  (\<^verbatim>\<open>lib.infer_dtype(values, skipna=True)\<close>) and raises \<^verbatim>\<open>AttributeError\<close> unless the
  answer is one of \<^verbatim>\<open>allowed_types\<close>.
\<close>

fun is_str :: "cell \<Rightarrow> bool" where
  "is_str (PyStr s) = True"
| "is_str c = False"

fun is_int :: "cell \<Rightarrow> bool" where
  "is_int (PyInt i) = True"
| "is_int c = False"

fun is_flt :: "cell \<Rightarrow> bool" where
  "is_flt (PyFloat r) = True"
| "is_flt c = False"

fun is_bool :: "cell \<Rightarrow> bool" where
  "is_bool (PyBool b) = True"
| "is_bool c = False"

fun is_ts :: "cell \<Rightarrow> bool" where
  "is_ts (Timestamp t) = True"
| "is_ts c = False"

definition mixed_tail :: "cell list \<Rightarrow> string" where
  "mixed_tail vs = (if list_ex is_int vs then ''mixed-integer'' else ''mixed'')"

definition infer_dtype :: "cell list \<Rightarrow> string" where
  "infer_dtype cs =
     (let vs = filter (\<lambda>c. c \<noteq> NA) cs in
      case vs of
        [] \<Rightarrow> ''empty''
      | v # rest \<Rightarrow>
          (case v of
             PyInt i \<Rightarrow>
               if list_all is_int vs then ''integer''
               else if list_all (\<lambda>c. is_int c \<or> is_flt c) vs then ''mixed-integer-float''
               else ''mixed-integer''
           | PyFloat r \<Rightarrow>
               if list_all is_flt vs then ''floating''
               else if list_all (\<lambda>c. is_int c \<or> is_flt c) vs then ''mixed-integer-float''
               else mixed_tail vs
           | PyBool b \<Rightarrow> if list_all is_bool vs then ''boolean'' else mixed_tail vs
           | Timestamp t \<Rightarrow> if list_all is_ts vs then ''datetime'' else mixed_tail vs
           | PyStr s \<Rightarrow> if list_all is_str vs then ''string'' else mixed_tail vs
           | NA \<Rightarrow> mixed_tail vs))"

definition allowed_types :: "string list" where
  "allowed_types = [''string'', ''empty'', ''bytes'', ''mixed'', ''mixed-integer'']"

definition str_accessor_ok :: "cell list \<Rightarrow> bool" where
  "str_accessor_ok cs = (infer_dtype cs \<in> set allowed_types)"

text \<open>
  \<^verbatim>\<open>str.strip()\<close> removes leading and trailing whitespace; in the ASCII range Python's
  whitespace is the codes 9 to 13 and 28 to 32.
\<close>

definition is_space :: "char \<Rightarrow> bool" where
  "is_space c = (let n = (of_char c :: nat) in (9 \<le> n \<and> n \<le> 13) \<or> (28 \<le> n \<and> n \<le> 32))"

definition strip :: "string \<Rightarrow> string" where
  "strip s = rev (dropWhile is_space (rev (dropWhile is_space s)))"

text \<open>
  The accessor maps \<^verbatim>\<open>x.strip()\<close> over the cells; a cell on which the call raises
  (it is no string) becomes the missing marker, and a missing cell stays missing.
\<close>

fun strip_cell :: "cell \<Rightarrow> cell" where
  "strip_cell (PyStr s) = PyStr (strip s)"
| "strip_cell c = NA"

text \<open>
  The accessor then infers the dtype of the result (\<^verbatim>\<open>maybe_convert_objects\<close>), unless
  every cell of the column was missing: results that are all \<^verbatim>\<open>NaN\<close>, which happens when
  the column has non-missing cells but no string, come back as a \<^verbatim>\<open>float64\<close> column; with
  a string among them the column stays an object column.
\<close>

definition strip_dtype :: "cell list \<Rightarrow> dtype" where
  "strip_dtype cs =
     (if list_ex (\<lambda>c. c \<noteq> NA) cs \<and> \<not> list_ex is_str cs then Float64 else Object)"

definition str_strip :: "column \<Rightarrow> column" where
  "str_strip c = c\<lparr>dtype := strip_dtype (cells c), cells := map strip_cell (cells c)\<rparr>"

fun strip_cols :: "string list \<Rightarrow> frame \<Rightarrow> error + frame" where
  "strip_cols [] df = Inr df"
| "strip_cols (n # ns) df =
     (if list_ex (\<lambda>c. name c = n \<and> \<not> str_accessor_ok (cells c)) df
      then Inl AttributeError
      else strip_cols ns (apply_col n str_strip df))"

section \<open>Stage 3: \<^verbatim>\<open>df[col].fillna(df[col].median(), inplace=True)\<close>\<close>

type_synonym rounding = "rat \<Rightarrow> float"

text \<open>The median is a float: an integer cell is converted, that is, rounded.\<close>

fun num_of :: "rounding \<Rightarrow> cell \<Rightarrow> float option" where
  "num_of R (PyInt i) = Some (R (of_int i))"
| "num_of R (PyFloat x) = Some x"
| "num_of R c = None"


text \<open>Floats in their order: minus infinity first, plus infinity last.\<close>

fun float_key :: "float \<Rightarrow> int \<times> rat" where
  "float_key NegInf = (-1, 0)"
| "float_key (Fin r) = (0, r)"
| "float_key PosInf = (1, 0)"

text \<open>
  The mean of two floats as the machine computes it, \<^verbatim>\<open>(a + b) / 2\<close>: the sum of two
  finite floats is rounded and may overflow to an infinity, an infinity plus a finite
  float or plus itself is that infinity, and the sum of the two opposite infinities is
  \<^verbatim>\<open>NaN\<close>.
\<close>

fun halve :: "rounding \<Rightarrow> float \<Rightarrow> float" where
  "halve R (Fin s) = R (s / 2)"
| "halve R x = x"

fun mean2 :: "rounding \<Rightarrow> float \<Rightarrow> float \<Rightarrow> cell" where
  "mean2 R (Fin a) (Fin b) = PyFloat (halve R (R (a + b)))"
| "mean2 R NegInf PosInf = NA"
| "mean2 R PosInf NegInf = NA"
| "mean2 R NegInf b = PyFloat NegInf"
| "mean2 R PosInf b = PyFloat PosInf"
| "mean2 R a NegInf = PyFloat NegInf"
| "mean2 R a PosInf = PyFloat PosInf"

text \<open>
  The median skips missing cells; of an odd number of values it is the middle one, of
  an even number the mean of the two middle ones; of no values it is \<^verbatim>\<open>NaN\<close>, the
  missing marker itself.
\<close>

definition median :: "rounding \<Rightarrow> cell list \<Rightarrow> cell" where
  "median R cs =
     (let vs = sort_key float_key (List.map_filter (num_of R) cs); n = length vs in
      if n = 0 then NA
      else if odd n then PyFloat (vs ! (n div 2))
      else mean2 R (vs ! (n div 2 - 1)) (vs ! (n div 2)))"

definition fillna :: "cell \<Rightarrow> cell list \<Rightarrow> cell list" where
  "fillna v cs = map (\<lambda>c. if c = NA then v else c) cs"

definition fill_median :: "rounding \<Rightarrow> column \<Rightarrow> column" where
  "fill_median R c = c\<lparr>cells := fillna (median R (cells c)) (cells c)\<rparr>"

section \<open>Stage 4: \<^verbatim>\<open>df[col].fillna(mode_val[0])\<close> or \<^verbatim>\<open>"Unknown"\<close>\<close>

fun str_of :: "cell \<Rightarrow> string option" where
  "str_of (PyStr s) = Some s"
| "str_of c = None"

text \<open>
  \<^verbatim>\<open>Series.mode()\<close>: the most frequent non-missing values, sorted. Strings sort by
  code point; candidates that are not all strings are left in order of first appearance
  (the pipeline only ever takes the mode of a stripped column, whose non-missing cells
  are strings).
\<close>

definition sort_modes :: "cell list \<Rightarrow> cell list" where
  "sort_modes cs = (case those (map str_of cs) of Some ss \<Rightarrow> map PyStr (sort ss) | None \<Rightarrow> cs)"

definition mode :: "cell list \<Rightarrow> cell list" where
  "mode cs =
     (let vs = filter (\<lambda>c. c \<noteq> NA) cs;
          ks = map py_key vs;
          reps = map (\<lambda>i. vs ! i) (first_idx ks);
          cnt = (\<lambda>v. length (filter (\<lambda>k. k = py_key v) ks));
          mx = fold max (map cnt reps) 0
      in sort_modes (filter (\<lambda>v. cnt v = mx) reps))"

text \<open>
  \<^verbatim>\<open>fillna\<close> with a string upcasts a column that cannot hold strings to an object column
  when there is a cell to fill.
\<close>

definition fill_mode :: "column \<Rightarrow> column" where
  "fill_mode c =
     (case mode (cells c) of
        [] \<Rightarrow> c\<lparr>dtype := (if NA \<in> set (cells c) then Object else dtype c),
                  cells := fillna (PyStr ''Unknown'') (cells c)\<rparr>
      | m # ms \<Rightarrow> c\<lparr>cells := fillna m (cells c)\<rparr>)"

section \<open>Stage 5: \<^verbatim>\<open>df[col] = pd.to_datetime(df[col])\<close> under \<^verbatim>\<open>try\<close>\<close>

text \<open>
  Which strings pandas' best-effort parser accepts is not fixed by this repository, so
  the parser is a parameter: given the whole column (pandas 2 infers one format from it)
  it tells of a non-missing cell whether it cannot be parsed, is read as \<^verbatim>\<open>NaT\<close> (the
  strings \<^verbatim>\<open>""\<close>, \<^verbatim>\<open>"NaT"\<close>, \<^verbatim>\<open>"nan"\<close> are), or is a timestamp: its instant and
  its UTC offset, if the string has one.
\<close>

datatype parsed = Unparsable | NaT | At int "int option"

type_synonym parser = "cell list \<Rightarrow> cell \<Rightarrow> parsed"

text \<open>
  The date a parsed cell becomes: its instant; a missing cell, and a string read as
  \<^verbatim>\<open>NaT\<close>, become the missing marker \<^verbatim>\<open>NaT\<close>.
\<close>

fun date_cell :: "(cell \<Rightarrow> parsed) \<Rightarrow> cell \<Rightarrow> cell" where
  "date_cell p NA = NA"
| "date_cell p c = (case p c of At t z \<Rightarrow> Timestamp t | _ \<Rightarrow> NA)"

text \<open>
  The result is a \<^verbatim>\<open>datetime64\<close> column when the timestamps agree on their UTC offset (all
  without one, or all with the same one). When the offsets differ, pandas 1.x and 2.x
  return an object column of datetime objects.
\<close>

fun offset_of :: "(cell \<Rightarrow> parsed) \<Rightarrow> cell \<Rightarrow> int option option" where
  "offset_of p NA = None"
| "offset_of p c = (case p c of At t z \<Rightarrow> Some z | _ \<Rightarrow> None)"

definition date_dtype :: "(cell \<Rightarrow> parsed) \<Rightarrow> cell list \<Rightarrow> dtype" where
  "date_dtype p cs =
     (if length (remdups (List.map_filter (offset_of p) cs)) \<le> 1 then Datetime64 else Object)"

text \<open>\<^verbatim>\<open>to_datetime\<close> raises as soon as one non-missing cell cannot be parsed.\<close>

definition to_datetime :: "parser \<Rightarrow> cell list \<Rightarrow> (dtype \<times> cell list) option" where
  "to_datetime P cs =
     (if list_ex (\<lambda>c. c \<noteq> NA \<and> P cs c = Unparsable) cs then None
      else Some (date_dtype (P cs) cs, map (date_cell (P cs)) cs))"

text \<open>
  The body of the loop: only an object column is tried; when the conversion raises, the
  \<^verbatim>\<open>except Exception: pass\<close> leaves the column as it is.
\<close>

definition try_datetime :: "parser \<Rightarrow> column \<Rightarrow> column" where
  "try_datetime P c =
     (if dtype c = Object then
        (case to_datetime P (cells c) of
           Some (d, ds) \<Rightarrow> c\<lparr>dtype := d, cells := ds\<rparr>
         | None \<Rightarrow> c)
      else c)"

section \<open>The pipeline\<close>

definition clean_data :: "parser \<Rightarrow> rounding \<Rightarrow> frame \<Rightarrow> error + frame" where
  "clean_data P R df0 =
     (let df = drop_duplicates df0;
          str_cols = select_dtypes is_object df
      in case strip_cols str_cols df of
           Inl e \<Rightarrow> Inl e
         | Inr df2 \<Rightarrow>
             (let num_cols = select_dtypes is_number df2;
                  df3 = for_cols num_cols (fill_median R) df2;
                  df4 = for_cols str_cols fill_mode df3
              in Inr (for_cols (map name df4) (try_datetime P) df4)))"


section \<open>The pipeline on a store of frames\<close>

text \<open>
  Frames are objects: the caller holds a reference, and \<^verbatim>\<open>df[col] = ...\<close> and
  \<^verbatim>\<open>fillna(..., inplace=True)\<close> change the object a name refers to. The store is the
  list of all frames and a reference is a position in it. Line 93 binds the local name
  \<^verbatim>\<open>df\<close> to the new frame that \<^verbatim>\<open>drop_duplicates()\<close> returns, so every later statement
  works on that object, at the reference \<open>new\<close>. The result is the final store and
  the returned reference, or the error raised.
\<close>

type_synonym store = "frame list"

definition clean_data_ref ::
  "parser \<Rightarrow> rounding \<Rightarrow> store \<Rightarrow> nat \<Rightarrow> store \<times> (error + nat)" where
  "clean_data_ref P R h r =
     (let new = length h;
          h1 = h @ [drop_duplicates (h ! r)];
          str_cols = select_dtypes is_object (h1 ! new)
      in case strip_cols str_cols (h1 ! new) of
           Inl e \<Rightarrow> (h1, Inl e)
         | Inr df2 \<Rightarrow>
             (let h2 = h1[new := df2];
                  num_cols = select_dtypes is_number (h2 ! new);
                  h3 = h2[new := for_cols num_cols (fill_median R) (h2 ! new)];
                  h4 = h3[new := for_cols str_cols fill_mode (h3 ! new)];
                  h5 = h4[new := for_cols (map name (h4 ! new)) (try_datetime P) (h4 ! new)]
              in (h5, Inr new)))"

section \<open>The pipeline seen from one column\<close>

text \<open>
  What the four loops together do to one column of the deduplicated frame; the lemma
  \<open>clean_data_cols\<close> below proves that the pipeline is this function mapped over the
  columns.
\<close>

definition clean_col :: "parser \<Rightarrow> rounding \<Rightarrow> column \<Rightarrow> column" where
  "clean_col P R c =
     try_datetime P
       (if dtype c = Object then fill_mode (str_strip c)
        else if is_number (dtype c) then fill_median R c
        else c)"

section \<open>Concrete inputs\<close>

text \<open>
  A parser that accepts the three date strings of the spec's Scenario 3, two timestamps
  with a UTC offset, and the empty string, which it reads as \<^verbatim>\<open>NaT\<close>, as pandas does; a
  rounding that is exact, as the machine's is on the few floats of the scenarios; and
  the tables of the spec's scenarios. The general theorems hold for every parser and
  every rounding.
\<close>

definition demo_parser :: parser where
  "demo_parser cs c =
     (if c = PyStr ''2024-01-01'' then At 1704067200000000000 None
      else if c = PyStr ''2024-02-15'' then At 1707955200000000000 None
      else if c = PyStr ''2024-03-10'' then At 1710028800000000000 None
      else if c = PyStr ''2024-01-01T00:00:00+01:00'' then At 1704063600000000000 (Some 3600)
      else if c = PyStr ''2024-01-02T00:00:00+02:00'' then At 1704146400000000000 (Some 7200)
      else if c = PyStr [] then NaT
      else Unparsable)"

definition demo_round :: rounding where
  "demo_round r = Fin r"

definition scenario1 :: frame where
  "scenario1 =
     [\<lparr>name = ''name'', dtype = Object, cells = [PyStr ''a'', PyStr ''a'', PyStr ''b'']\<rparr>,
      \<lparr>name = ''val'', dtype = Float64, cells = [PyFloat (Fin 1), PyFloat (Fin 1), NA]\<rparr>]"

definition scenario1_out :: frame where
  "scenario1_out =
     [\<lparr>name = ''name'', dtype = Object, cells = [PyStr ''a'', PyStr ''b'']\<rparr>,
      \<lparr>name = ''val'', dtype = Float64, cells = [PyFloat (Fin 1), PyFloat (Fin 1)]\<rparr>]"

definition scenario3 :: frame where
  "scenario3 = [\<lparr>name = ''d'', dtype = Object,
       cells = [PyStr ''2024-01-01'', PyStr ''2024-02-15'', PyStr ''2024-03-10'']\<rparr>]"

definition scenario4 :: frame where
  "scenario4 = [\<lparr>name = ''d'', dtype = Object,
       cells = [PyStr ''2024-01-01'', PyStr ''not-a-date'', PyStr ''2024-03-10'']\<rparr>]"

definition scenario5 :: frame where
  "scenario5 = [\<lparr>name = ''v'', dtype = Float64, cells = [NA, NA, NA]\<rparr>]"


definition mixed_frame :: frame where
  "mixed_frame = [\<lparr>name = ''m'', dtype = Object, cells = [PyInt 7, PyStr '' a '']\<rparr>]"

definition snapshot_frame :: frame where
  "snapshot_frame =
     [\<lparr>name = ''n'', dtype = Object, cells = [PyStr '' 1 '', PyStr ''2'', NA, PyStr ''2 '']\<rparr>,
      \<lparr>name = ''e'', dtype = Object, cells = [PyInt 1, PyBool False, PyInt 2, PyInt 3]\<rparr>]"

definition snapshot_stripped :: frame where
  "snapshot_stripped =
     [\<lparr>name = ''n'', dtype = Object, cells = [PyStr ''1'', PyStr ''2'', NA, PyStr ''2'']\<rparr>,
      \<lparr>name = ''e'', dtype = Float64, cells = [NA, NA, NA, NA]\<rparr>]"

definition snapshot_out :: frame where
  "snapshot_out =
     [\<lparr>name = ''n'', dtype = Object, cells = [PyStr ''1'', PyStr ''2'', PyStr ''2'', PyStr ''2'']\<rparr>,
      \<lparr>name = ''e'', dtype = Object,
        cells = [PyStr ''Unknown'', PyStr ''Unknown'', PyStr ''Unknown'', PyStr ''Unknown'']\<rparr>]"

definition offsets_frame :: frame where
  "offsets_frame =
     [\<lparr>name = ''ts'', dtype = Object,
        cells = [PyStr ''2024-01-01T00:00:00+01:00'', PyStr ''2024-01-02T00:00:00+02:00'']\<rparr>]"

definition offsets_out :: frame where
  "offsets_out =
     [\<lparr>name = ''ts'', dtype = Object,
        cells = [Timestamp 1704063600000000000, Timestamp 1704146400000000000]\<rparr>]"




definition flags_frame :: frame where
  "flags_frame = [\<lparr>name = ''flag'', dtype = Object, cells = [PyBool True, NA, PyBool False]\<rparr>]"

definition scenario2 :: frame where
  "scenario2 = [\<lparr>name = ''t'', dtype = Object, cells = [PyStr '' x '', PyStr ''y'', NA]\<rparr>]"

definition scenario2_out :: frame where
  "scenario2_out = [\<lparr>name = ''t'', dtype = Object, cells = [PyStr ''x'', PyStr ''y'', PyStr ''x'']\<rparr>]"

section \<open>Loops over column names\<close>

lemma name_apply_col: "(\<And>c. name (f c) = name c) \<Longrightarrow> map name (apply_col n f df) = map name df"
  by (induction df) (auto simp: apply_col_def)

lemma for_cols_map:
  "distinct ns \<Longrightarrow> (\<And>c. name (f c) = name c) \<Longrightarrow>
   for_cols ns f df = map (\<lambda>c. if name c \<in> set ns then f c else c) df"
proof (induction ns arbitrary: df)
  case Nil
  then show ?case by simp
next
  case (Cons n ns)
  have "for_cols (n # ns) f df = for_cols ns f (apply_col n f df)" by simp
  also have "\<dots> = map (\<lambda>c. if name c \<in> set ns then f c else c) (apply_col n f df)"
    using Cons by simp
  also have "\<dots> = map (\<lambda>c. if name c \<in> set (n # ns) then f c else c) df"
    using Cons.prems by (auto simp: apply_col_def)
  finally show ?case .
qed

lemma strip_cols_map:
  "distinct ns \<Longrightarrow>
   strip_cols ns df =
     (if \<forall>c\<in>set df. name c \<in> set ns \<longrightarrow> str_accessor_ok (cells c)
      then Inr (map (\<lambda>c. if name c \<in> set ns then str_strip c else c) df)
      else Inl AttributeError)"
proof (induction ns arbitrary: df)
  case Nil
  then show ?case by simp
next
  case (Cons n ns)
  have nm: "\<And>c. name (str_strip c) = name c" by (simp add: str_strip_def)
  show ?case
  proof (cases "\<exists>c\<in>set df. name c = n \<and> \<not> str_accessor_ok (cells c)")
    case True
    then show ?thesis by (auto simp: list_ex_iff)
  next
    case False
    then have "strip_cols (n # ns) df = strip_cols ns (apply_col n str_strip df)"
      by (auto simp: list_ex_iff)
    also have "\<dots> = (if \<forall>c\<in>set (apply_col n str_strip df). name c \<in> set ns \<longrightarrow> str_accessor_ok (cells c)
      then Inr (map (\<lambda>c. if name c \<in> set ns then str_strip c else c) (apply_col n str_strip df))
      else Inl AttributeError)"
      using Cons by simp
    also have "(\<forall>c\<in>set (apply_col n str_strip df). name c \<in> set ns \<longrightarrow> str_accessor_ok (cells c))
       = (\<forall>c\<in>set df. name c \<in> set (n # ns) \<longrightarrow> str_accessor_ok (cells c))"
      using False Cons.prems by (auto simp: apply_col_def nm)
    also have "map (\<lambda>c. if name c \<in> set ns then str_strip c else c) (apply_col n str_strip df)
       = map (\<lambda>c. if name c \<in> set (n # ns) then str_strip c else c) df"
      using Cons.prems by (auto simp: apply_col_def nm)
    finally show ?thesis .
  qed
qed

lemma select_dtypes_mem:
  "distinct (map name df) \<Longrightarrow> c \<in> set df \<Longrightarrow> name c \<in> set (select_dtypes p df) \<longleftrightarrow> p (dtype c)"
proof -
  assume d: "distinct (map name df)" and c: "c \<in> set df"
  then have inj: "inj_on name (set df)" by (simp add: distinct_map)
  show ?thesis using c inj by (auto simp: select_dtypes_def inj_on_def)
qed

lemma distinct_select_dtypes: "distinct (map name df) \<Longrightarrow> distinct (select_dtypes p df)"
  by (simp add: select_dtypes_def distinct_map_filter)

section \<open>Facts about Stage 1\<close>

lemma first_idx_lt: "i \<in> set (first_idx ks) \<Longrightarrow> i < length ks"
  by (simp add: first_idx_def)

lemma first_idx_iff:
  "i \<in> set (first_idx ks) \<longleftrightarrow> i < length ks \<and> (\<forall>j<i. ks ! j \<noteq> ks ! i)"
proof -
  have "i < length ks \<Longrightarrow> (ks ! i \<in> set (take i ks)) = (\<exists>j<i. ks ! j = ks ! i)"
    by (auto simp: in_set_conv_nth)
  then show ?thesis by (auto simp: first_idx_def)
qed

lemma sorted_first_idx: "sorted_wrt (<) (first_idx ks)"
  unfolding first_idx_def by (rule sorted_wrt_filter) (simp add: sorted_wrt_upt)

lemma distinct_first_idx: "distinct (first_idx ks)"
  by (simp add: first_idx_def)

lemma distinct_first_vals: "distinct (map (\<lambda>i. ks ! i) (first_idx ks))"
proof -
  have "inj_on (\<lambda>i. ks ! i) (set (first_idx ks))"
  proof (rule inj_onI)
    fix i j
    assume i: "i \<in> set (first_idx ks)" and j: "j \<in> set (first_idx ks)" and e: "ks ! i = ks ! j"
    show "i = j"
    proof (rule ccontr)
      assume "i \<noteq> j"
      then consider "i < j" | "j < i" by linarith
      then show False
        using i j e by cases (auto simp: first_idx_iff)
    qed
  qed
  then show ?thesis by (simp add: distinct_map distinct_first_idx)
qed

lemma set_first_vals: "set (map (\<lambda>i. ks ! i) (first_idx ks)) = set ks"
proof
  show "set (map (\<lambda>i. ks ! i) (first_idx ks)) \<subseteq> set ks"
    by (auto simp: first_idx_iff)
  show "set ks \<subseteq> set (map (\<lambda>i. ks ! i) (first_idx ks))"
  proof
    fix x assume "x \<in> set ks"
    then obtain i where i: "i < length ks \<and> ks ! i = x" by (auto simp: in_set_conv_nth)
    define m where "m = (LEAST i. i < length ks \<and> ks ! i = x)"
    have m: "m < length ks \<and> ks ! m = x" unfolding m_def by (rule LeastI [of _ i]) (rule i)
    have least: "\<And>j. j < m \<Longrightarrow> \<not> (j < length ks \<and> ks ! j = x)"
      unfolding m_def by (rule not_less_Least)
    have "m \<in> set (first_idx ks)"
      using m least by (auto simp: first_idx_iff)
    then show "x \<in> set (map (\<lambda>i. ks ! i) (first_idx ks))"
      using m by force
  qed
qed

lemma length_first_idx: "length (first_idx ks) = card (set ks)"
proof -
  have "card (set ks) = card (set (map (\<lambda>i. ks ! i) (first_idx ks)))"
    by (simp only: set_first_vals)
  also have "\<dots> = length (map (\<lambda>i. ks ! i) (first_idx ks))"
    by (rule distinct_card) (rule distinct_first_vals)
  finally show ?thesis by simp
qed

lemma length_first_idx_le: "length (first_idx ks) \<le> length ks"
  using length_filter_le [of "\<lambda>i. ks ! i \<notin> set (take i ks)" "[0..<length ks]"]
  by (simp add: first_idx_def)

lemma first_idx_distinct: "distinct ks \<Longrightarrow> first_idx ks = [0..<length ks]"
proof -
  assume d: "distinct ks"
  have "\<And>i. i \<in> set [0..<length ks] \<Longrightarrow> ks ! i \<notin> set (take i ks)"
  proof -
    fix i assume "i \<in> set [0..<length ks]"
    then have i: "i < length ks" by simp
    show "ks ! i \<notin> set (take i ks)"
      using d i by (auto simp: in_set_conv_nth nth_eq_iff_index_eq)
  qed
  then show ?thesis unfolding first_idx_def by (simp add: filter_id_conv)
qed

lemma length_key_rows: "length (key_rows df) = nrows df"
  by (simp add: key_rows_def rows_def)

lemma name_drop_duplicates: "map name (drop_duplicates df) = map name df"
  by (simp add: drop_duplicates_def take_rows_def)

lemma dtype_drop_duplicates: "map dtype (drop_duplicates df) = map dtype df"
  by (simp add: drop_duplicates_def take_rows_def)

lemma nrows_drop_duplicates: "nrows (drop_duplicates df) = length (first_idx (key_rows df))"
  by (cases df) (simp_all add: nrows_def drop_duplicates_def take_rows_def key_rows_def rows_def first_idx_def)

lemma rows_drop_duplicates: "rows (drop_duplicates df) = map (row df) (first_idx (key_rows df))"
proof -
  let ?idx = "first_idx (key_rows df)"
  have "rows (drop_duplicates df) = map (row (drop_duplicates df)) [0..<length ?idx]"
    by (simp add: rows_def nrows_drop_duplicates)
  also have "\<dots> = map (\<lambda>i. row df (?idx ! i)) [0..<length ?idx]"
    by (simp add: row_def drop_duplicates_def take_rows_def)
  also have "\<dots> = map (row df) ?idx"
    by (rule nth_equalityI) simp_all
  finally show ?thesis .
qed

lemma key_rows_drop_duplicates:
  "key_rows (drop_duplicates df) = map (\<lambda>i. key_rows df ! i) (first_idx (key_rows df))"
proof -
  have "\<And>i. i \<in> set (first_idx (key_rows df)) \<Longrightarrow> map py_key (row df i) = key_rows df ! i"
    using first_idx_lt [of _ "key_rows df"] by (simp add: key_rows_def rows_def)
  then show ?thesis
    by (simp add: key_rows_def [of "drop_duplicates df"] rows_drop_duplicates)
qed

lemma distinct_key_rows_drop: "distinct (key_rows (drop_duplicates df))"
  by (simp only: key_rows_drop_duplicates distinct_first_vals)

section \<open>Facts about the column functions and the loops\<close>

lemma name_str_strip [simp]: "name (str_strip c) = name c"
  by (simp add: str_strip_def)

lemma dtype_str_strip: "dtype (str_strip c) = strip_dtype (cells c)"
  by (simp add: str_strip_def)

lemma strip_dtype_Float64:
  assumes "strip_dtype cs \<noteq> Object"
  shows "set (map strip_cell cs) = {NA}"
proof -
  have a: "\<exists>x\<in>set cs. x \<noteq> NA" and b: "\<forall>x\<in>set cs. \<not> is_str x"
    using assms by (auto simp: strip_dtype_def list_ex_iff split: if_splits)
  have "\<And>x. x \<in> set cs \<Longrightarrow> strip_cell x = NA"
  proof -
    fix x assume "x \<in> set cs"
    then have "\<not> is_str x" using b by simp
    then show "strip_cell x = NA" by (cases x) simp_all
  qed
  then show ?thesis using a by auto
qed

lemma name_fill_median [simp]: "name (fill_median R c) = name c"
  by (simp add: fill_median_def)

lemma dtype_fill_median [simp]: "dtype (fill_median R c) = dtype c"
  by (simp add: fill_median_def)

lemma name_fill_mode [simp]: "name (fill_mode c) = name c"
  by (simp add: fill_mode_def split: list.splits)

lemma dtype_fill_mode_object: "dtype c = Object \<Longrightarrow> dtype (fill_mode c) = Object"
  by (simp add: fill_mode_def split: list.splits)

lemma name_try_datetime [simp]: "name (try_datetime P c) = name c"
  by (simp add: try_datetime_def split: option.splits prod.splits)

lemma name_clean_col [simp]: "name (clean_col P R c) = name c"
  by (simp add: clean_col_def)

lemma length_to_datetime: "to_datetime P cs = Some (d, ds) \<Longrightarrow> length ds = length cs"
  by (auto simp: to_datetime_def split: if_splits)

lemma length_str_strip [simp]: "length (cells (str_strip c)) = length (cells c)"
  by (simp add: str_strip_def)

lemma length_fill_median [simp]: "length (cells (fill_median R c)) = length (cells c)"
  by (simp add: fill_median_def fillna_def)

lemma length_fill_mode [simp]: "length (cells (fill_mode c)) = length (cells c)"
  by (simp add: fill_mode_def fillna_def split: list.splits)

lemma length_try_datetime [simp]: "length (cells (try_datetime P c)) = length (cells c)"
  by (auto simp: try_datetime_def split: option.splits prod.splits dest: length_to_datetime)

lemma length_clean_col [simp]: "length (cells (clean_col P R c)) = length (cells c)"
  by (simp add: clean_col_def)

lemma nrows_map: "(\<And>c. length (cells (g c)) = length (cells c)) \<Longrightarrow> nrows (map g df) = nrows df"
  by (cases df) (simp_all add: nrows_def)

lemma nrows_apply_col:
  "(\<And>c. length (cells (f c)) = length (cells c)) \<Longrightarrow> nrows (apply_col n f df) = nrows df"
  unfolding apply_col_def by (rule nrows_map) simp

lemma nrows_for_cols:
  "(\<And>c. length (cells (f c)) = length (cells c)) \<Longrightarrow> nrows (for_cols ns f df) = nrows df"
  by (induction ns arbitrary: df) (simp_all add: nrows_apply_col)

lemma nrows_strip_cols: "strip_cols ns df = Inr df' \<Longrightarrow> nrows df' = nrows df"
  by (induction ns arbitrary: df) (auto simp: nrows_apply_col split: if_splits)

lemma name_for_cols:
  "(\<And>c. name (f c) = name c) \<Longrightarrow> map name (for_cols ns f df) = map name df"
  by (induction ns arbitrary: df) (simp_all add: name_apply_col)

lemma name_strip_cols: "strip_cols ns df = Inr df' \<Longrightarrow> map name df' = map name df"
  by (induction ns arbitrary: df) (auto simp: name_apply_col split: if_splits)

lemma fillna_NA [simp]: "fillna NA cs = cs"
  by (simp add: fillna_def map_idI)

lemma fillna_no_NA: "NA \<notin> set cs \<Longrightarrow> fillna v cs = cs"
  by (auto simp: fillna_def intro: map_idI)

lemma no_NA_fillna: "v \<noteq> NA \<Longrightarrow> NA \<notin> set (fillna v cs)"
  by (auto simp: fillna_def)

lemma set_fillna: "set (fillna v cs) \<subseteq> insert v (set cs)"
  by (auto simp: fillna_def)

lemma median_all_NA: "set cs \<subseteq> {NA} \<Longrightarrow> median R cs = NA"
proof -
  assume "set cs \<subseteq> {NA}"
  then have "filter (\<lambda>x. num_of R x \<noteq> None) cs = []"
    by (auto simp: filter_empty_conv)
  then show ?thesis by (simp add: median_def map_filter_def)
qed



lemma those_str_of: "those (map str_of cs) = Some ss \<Longrightarrow> cs = map PyStr ss"
proof (induction cs arbitrary: ss)
  case Nil
  then show ?case by simp
next
  case (Cons c cs)
  then show ?case by (cases c) (auto split: option.splits)
qed

lemma set_sort_modes: "set (sort_modes cs) = set cs"
  by (auto simp: sort_modes_def split: option.splits dest!: those_str_of)

lemma mode_subset: "set (mode cs) \<subseteq> set cs - {NA}"
proof -
  define vs where "vs = filter (\<lambda>c. c \<noteq> NA) cs"
  have "\<And>i. i \<in> set (first_idx (map py_key vs)) \<Longrightarrow> vs ! i \<in> set vs"
    using first_idx_lt [of _ "map py_key vs"] by simp
  then have "set (map (\<lambda>i. vs ! i) (first_idx (map py_key vs))) \<subseteq> set cs - {NA}"
    by (auto simp: vs_def)
  then show ?thesis
    unfolding mode_def Let_def set_sort_modes vs_def [symmetric] by auto
qed

lemma no_NA_fill_mode: "NA \<notin> set (cells (fill_mode c))"
proof (cases "mode (cells c)")
  case Nil
  then show ?thesis by (simp add: fill_mode_def no_NA_fillna)
next
  case (Cons m ms)
  then have "m \<noteq> NA" using mode_subset [of "cells c"] by auto
  then show ?thesis using Cons by (simp add: fill_mode_def no_NA_fillna)
qed

lemma mode_all_NA: "set cs \<subseteq> {NA} \<Longrightarrow> mode cs = []"
proof -
  assume "set cs \<subseteq> {NA}"
  then have "filter (\<lambda>c. c \<noteq> NA) cs = []" by (auto simp: filter_empty_conv)
  then show ?thesis by (simp add: mode_def first_idx_def sort_modes_def)
qed

lemma fill_median_str_strip:
  "dtype (str_strip c) \<noteq> Object \<Longrightarrow> fill_median R (str_strip c) = str_strip c"
proof -
  assume "dtype (str_strip c) \<noteq> Object"
  then have "set (cells (str_strip c)) = {NA}"
    using strip_dtype_Float64 [of "cells c"] by (simp add: str_strip_def)
  then have "median R (cells (str_strip c)) = NA" by (simp add: median_all_NA)
  then show ?thesis by (simp add: fill_median_def)
qed

lemma fill_median_number_str_strip:
  "is_number (dtype (str_strip c)) \<Longrightarrow> fill_median R (str_strip c) = str_strip c"
  using fill_median_str_strip [of c] by (auto simp: is_number_def)

lemma dtype_fill_mode_str_strip: "dtype (fill_mode (str_strip c)) = Object"
proof (cases "dtype (str_strip c) = Object")
  case True
  then show ?thesis by (rule dtype_fill_mode_object)
next
  case False
  then have a: "set (cells (str_strip c)) = {NA}"
    using strip_dtype_Float64 [of "cells c"] by (simp add: str_strip_def)
  then have "mode (cells (str_strip c)) = []" by (simp add: mode_all_NA)
  then show ?thesis using a by (simp add: fill_mode_def)
qed

lemma clean_data_cols:
  assumes d: "distinct (map name df)"
  shows "clean_data P R df =
     (if \<forall>c\<in>set (drop_duplicates df). dtype c = Object \<longrightarrow> str_accessor_ok (cells c)
      then Inr (map (clean_col P R) (drop_duplicates df))
      else Inl AttributeError)"
proof -
  define d1 where "d1 = drop_duplicates df"
  define sc where "sc = select_dtypes is_object d1"
  define d2 where "d2 = map (\<lambda>c. if dtype c = Object then str_strip c else c) d1"
  define nc where "nc = select_dtypes is_number d2"
  define d3 where "d3 = for_cols nc (fill_median R) d2"
  define d4 where "d4 = for_cols sc fill_mode d3"
  have dd1: "distinct (map name d1)"
    using d by (simp add: d1_def name_drop_duplicates)
  have dsc: "distinct sc"
    unfolding sc_def using dd1 by (rule distinct_select_dtypes)
  have sc_mem: "\<And>c. c \<in> set d1 \<Longrightarrow> name c \<in> set sc \<longleftrightarrow> dtype c = Object"
    unfolding sc_def using select_dtypes_mem [OF dd1] by (simp add: is_object_def)
  have s2: "strip_cols sc d1 =
     (if \<forall>c\<in>set d1. dtype c = Object \<longrightarrow> str_accessor_ok (cells c) then Inr d2 else Inl AttributeError)"
  proof -
    have "map (\<lambda>c. if name c \<in> set sc then str_strip c else c) d1 = d2"
      unfolding d2_def by (rule map_cong) (simp_all add: sc_mem)
    moreover have "(\<forall>c\<in>set d1. name c \<in> set sc \<longrightarrow> str_accessor_ok (cells c))
        = (\<forall>c\<in>set d1. dtype c = Object \<longrightarrow> str_accessor_ok (cells c))"
      using sc_mem by blast
    ultimately show ?thesis by (simp add: strip_cols_map [OF dsc])
  qed
  have n2: "map name d2 = map name d1"
    by (simp add: d2_def comp_def)
  have dd2: "distinct (map name d2)" using dd1 n2 by simp
  have s3: "d3 = map (\<lambda>c. if is_number (dtype c) then fill_median R c else c) d2"
  proof -
    have "distinct nc" unfolding nc_def using dd2 by (rule distinct_select_dtypes)
    then have "d3 = map (\<lambda>c. if name c \<in> set nc then fill_median R c else c) d2"
      unfolding d3_def by (rule for_cols_map) simp
    also have "\<dots> = map (\<lambda>c. if is_number (dtype c) then fill_median R c else c) d2"
      by (rule map_cong) (simp_all add: nc_def select_dtypes_mem [OF dd2])
    finally show ?thesis .
  qed
  have s4: "d4 = map (\<lambda>c. if dtype c = Object then fill_mode (str_strip c)
        else if is_number (dtype c) then fill_median R c else c) d1"
  proof -
    have "d4 = map (\<lambda>c. if name c \<in> set sc then fill_mode c else c) d3"
      unfolding d4_def using dsc by (rule for_cols_map) simp
    also have "\<dots> = map (\<lambda>c. if dtype c = Object then fill_mode (str_strip c)
        else if is_number (dtype c) then fill_median R c else c) d1"
      unfolding s3 d2_def map_map
      by (rule map_cong) (auto simp: sc_mem fill_median_number_str_strip)
    finally show ?thesis .
  qed
  have s5: "for_cols (map name d4) (try_datetime P) d4 = map (clean_col P R) d1"
  proof -
    have "distinct (map name d4)"
      unfolding d4_def d3_def using dd2 by (simp add: name_for_cols)
    then have "for_cols (map name d4) (try_datetime P) d4
        = map (\<lambda>c. if name c \<in> set (map name d4) then try_datetime P c else c) d4"
      by (rule for_cols_map) simp
    also have "\<dots> = map (try_datetime P) d4"
      by (rule map_cong) simp_all
    also have "\<dots> = map (clean_col P R) d1"
      unfolding s4 by (simp add: clean_col_def comp_def)
    finally show ?thesis .
  qed
  show ?thesis
    unfolding clean_data_def Let_def
    using s2 s5
    by (simp add: d1_def [symmetric] sc_def [symmetric] nc_def [symmetric] d3_def [symmetric] d4_def [symmetric])
qed

lemma clean_scenario1: "clean_data demo_parser demo_round scenario1 = Inr scenario1_out"
  by code_simp

lemma nrows_clean_data:
  assumes "clean_data P R df = Inr out"
  shows "nrows out = nrows (drop_duplicates df)"
  using assms
  by (auto simp: clean_data_def Let_def nrows_for_cols dest!: nrows_strip_cols split: sum.splits)

lemma names_clean_data:
  "clean_data P R df = Inr out \<Longrightarrow> map name out = map name df"
  by (auto simp: clean_data_def Let_def name_for_cols name_drop_duplicates
      dest!: name_strip_cols split: sum.splits)

section \<open>Facts about Stage 5\<close>

lemma to_datetime_conv:
  "to_datetime P cs =
     (if \<forall>x\<in>set cs. x \<noteq> NA \<longrightarrow> P cs x \<noteq> Unparsable
      then Some (date_dtype (P cs) cs, map (date_cell (P cs)) cs)
      else None)"
  by (auto simp: to_datetime_def list_ex_iff)


lemma date_cell_not_str: "\<not> is_str (date_cell p x)"
  by (cases x; cases "p x") simp_all

lemma date_dtype_Nil: "date_dtype p [] = Datetime64"
  by (simp add: date_dtype_def map_filter_def)

lemma try_datetime_not_object: "dtype c \<noteq> Object \<Longrightarrow> try_datetime P c = c"
  by (simp add: try_datetime_def)

lemma try_datetime_conv:
  "dtype c = Object \<Longrightarrow>
   try_datetime P c =
     (if \<forall>x\<in>set (cells c). x \<noteq> NA \<longrightarrow> P (cells c) x \<noteq> Unparsable
      then c\<lparr>dtype := date_dtype (P (cells c)) (cells c),
             cells := map (date_cell (P (cells c))) (cells c)\<rparr>
      else c)"
  by (auto simp: try_datetime_def to_datetime_conv)


lemma for_cols_all:
  assumes "distinct (map name df)" and "\<And>c. name (f c) = name c"
  shows "for_cols (map name df) f df = map f df"
proof -
  have "for_cols (map name df) f df = map (\<lambda>c. if name c \<in> set (map name df) then f c else c) df"
    using assms by (rule for_cols_map)
  also have "\<dots> = map f df" by (rule map_cong) simp_all
  finally show ?thesis .
qed

section \<open>Facts about filling, the median and the mode\<close>

lemma clean_data_nth:
  assumes "distinct (map name df)" and "clean_data P R df = Inr out" and "i < length df"
  shows "out ! i = clean_col P R (take_rows (first_idx (key_rows df)) (df ! i))"
proof -
  have "out = map (clean_col P R) (drop_duplicates df)"
    using assms(2) by (simp add: clean_data_cols [OF assms(1)] split: if_splits)
  then show ?thesis using assms(3) by (simp add: drop_duplicates_def)
qed

lemma length_clean_data:
  "clean_data P R df = Inr out \<Longrightarrow> length out = length df"
  using names_clean_data [of P R df out] by (metis length_map)

lemma py_key_NA: "py_key x = NA \<longleftrightarrow> x = NA"
  by (cases x) simp_all


lemma wf_frame_length: "wf_frame df \<Longrightarrow> c \<in> set df \<Longrightarrow> length (cells c) = nrows df"
  by (simp add: wf_frame_def list_all_iff)


lemma wf_frame_distinct: "wf_frame df \<Longrightarrow> distinct (map name df)"
  by (simp add: wf_frame_def)



lemma dedup_all_missing:
  assumes wf: "wf_frame df" and i: "i < length df" and x: "set (cells (df ! i)) \<subseteq> {NA}"
  shows "cells (take_rows (first_idx (key_rows df)) (df ! i)) = replicate (nrows (drop_duplicates df)) NA"
proof -
  have len: "length (cells (df ! i)) = nrows df"
    using wf i by (simp add: wf_frame_length)
  have "\<And>k. k \<in> set (first_idx (key_rows df)) \<Longrightarrow> cells (df ! i) ! k = NA"
  proof -
    fix k assume "k \<in> set (first_idx (key_rows df))"
    then have "k < length (cells (df ! i))"
      using first_idx_lt [of k "key_rows df"] len by (simp add: length_key_rows)
    then have "cells (df ! i) ! k \<in> set (cells (df ! i))" by simp
    then show "cells (df ! i) ! k = NA" using x by auto
  qed
  then show ?thesis
    by (simp add: take_rows_def nrows_drop_duplicates map_replicate_const [symmetric] cong: map_cong)
qed

section \<open>The stages one by one\<close>

lemma strip_stage:
  assumes "distinct (map name d)"
  shows "strip_cols (select_dtypes is_object d) d =
     (if \<forall>c\<in>set d. dtype c = Object \<longrightarrow> str_accessor_ok (cells c)
      then Inr (map (\<lambda>c. if dtype c = Object then str_strip c else c) d)
      else Inl AttributeError)"
proof -
  let ?sc = "select_dtypes is_object d"
  have mem: "\<And>c. c \<in> set d \<Longrightarrow> name c \<in> set ?sc \<longleftrightarrow> dtype c = Object"
    using select_dtypes_mem [OF assms] by (simp add: is_object_def)
  have "map (\<lambda>c. if name c \<in> set ?sc then str_strip c else c) d
      = map (\<lambda>c. if dtype c = Object then str_strip c else c) d"
    by (rule map_cong) (simp_all add: mem)
  moreover have "(\<forall>c\<in>set d. name c \<in> set ?sc \<longrightarrow> str_accessor_ok (cells c))
      = (\<forall>c\<in>set d. dtype c = Object \<longrightarrow> str_accessor_ok (cells c))"
    using mem by blast
  ultimately show ?thesis
    by (simp add: strip_cols_map [OF distinct_select_dtypes [OF assms]])
qed

lemma median_stage:
  assumes "distinct (map name d)"
  shows "for_cols (select_dtypes is_number d) (fill_median R) d
       = map (\<lambda>c. if is_number (dtype c) then fill_median R c else c) d"
proof -
  have "for_cols (select_dtypes is_number d) (fill_median R) d
      = map (\<lambda>c. if name c \<in> set (select_dtypes is_number d) then fill_median R c else c) d"
    by (rule for_cols_map) (simp_all add: distinct_select_dtypes [OF assms])
  also have "\<dots> = map (\<lambda>c. if is_number (dtype c) then fill_median R c else c) d"
    by (rule map_cong) (simp_all add: select_dtypes_mem [OF assms])
  finally show ?thesis .
qed

lemma mode_stage:
  assumes d: "distinct (map name d)" and n: "map name d' = map name d"
  shows "for_cols (select_dtypes is_object d) fill_mode d'
       = map2 (\<lambda>c0 c. if dtype c0 = Object then fill_mode c else c) d d'"
proof -
  let ?sc = "select_dtypes is_object d"
  have len: "length d' = length d" using n by (metis length_map)
  have "for_cols ?sc fill_mode d' = map (\<lambda>c. if name c \<in> set ?sc then fill_mode c else c) d'"
    by (rule for_cols_map) (simp_all add: distinct_select_dtypes [OF d])
  also have "\<dots> = map2 (\<lambda>c0 c. if dtype c0 = Object then fill_mode c else c) d d'"
  proof (rule nth_equalityI)
    show "length (map (\<lambda>c. if name c \<in> set ?sc then fill_mode c else c) d')
        = length (map2 (\<lambda>c0 c. if dtype c0 = Object then fill_mode c else c) d d')"
      using len by simp
  next
    fix k assume "k < length (map (\<lambda>c. if name c \<in> set ?sc then fill_mode c else c) d')"
    then have k: "k < length d" "k < length d'" using len by simp_all
    have "name (d' ! k) = name (d ! k)"
      using n k by (metis nth_map)
    moreover have "name (d ! k) \<in> set ?sc \<longleftrightarrow> dtype (d ! k) = Object"
      using select_dtypes_mem [OF d, of "d ! k" is_object] k by (simp add: is_object_def)
    ultimately show "map (\<lambda>c. if name c \<in> set ?sc then fill_mode c else c) d' ! k
        = map2 (\<lambda>c0 c. if dtype c0 = Object then fill_mode c else c) d d' ! k"
      using k by simp
  qed
  finally show ?thesis .
qed

lemma clean_data_stages:
  assumes d: "distinct (map name df)" and c: "clean_data P R df = Inr out"
  shows "\<exists>d2. strip_cols (select_dtypes is_object (drop_duplicates df)) (drop_duplicates df) = Inr d2 \<and>
          d2 = map (\<lambda>c. if dtype c = Object then str_strip c else c) (drop_duplicates df) \<and>
          out = for_cols (map name d2) (try_datetime P)
                  (for_cols (select_dtypes is_object (drop_duplicates df)) fill_mode
                     (for_cols (select_dtypes is_number d2) (fill_median R) d2))"
proof -
  have dd: "distinct (map name (drop_duplicates df))"
    using d by (simp add: name_drop_duplicates)
  obtain d2 where d2: "strip_cols (select_dtypes is_object (drop_duplicates df)) (drop_duplicates df) = Inr d2"
    using c by (auto simp: clean_data_def Let_def split: sum.splits)
  then have e: "d2 = map (\<lambda>c. if dtype c = Object then str_strip c else c) (drop_duplicates df)"
    by (simp add: strip_stage [OF dd] split: if_splits)
  have "out = for_cols (map name (for_cols (select_dtypes is_object (drop_duplicates df)) fill_mode
                     (for_cols (select_dtypes is_number d2) (fill_median R) d2))) (try_datetime P)
                  (for_cols (select_dtypes is_object (drop_duplicates df)) fill_mode
                     (for_cols (select_dtypes is_number d2) (fill_median R) d2))"
    using c d2 by (simp add: clean_data_def Let_def)
  then show ?thesis using d2 e by (simp add: name_for_cols)
qed

section \<open>The scenarios, evaluated\<close>


lemma wf_scenario5: "wf_frame scenario5"
  by (simp add: wf_frame_def scenario5_def nrows_def)

lemma clean_scenario5:
  "clean_data demo_parser demo_round scenario5 = Inr [\<lparr>name = ''v'', dtype = Float64, cells = [NA]\<rparr>]"
  by code_simp

lemma clean_mixed:
  "clean_data demo_parser demo_round mixed_frame = Inr [\<lparr>name = ''m'', dtype = Object, cells = [PyStr ''a'', PyStr ''a'']\<rparr>]"
  by code_simp

lemma clean_snapshot: "clean_data demo_parser demo_round snapshot_frame = Inr snapshot_out"
  by code_simp

lemma strip_snapshot:
  "strip_cols (select_dtypes is_object (drop_duplicates snapshot_frame)) (drop_duplicates snapshot_frame)
     = Inr snapshot_stripped"
  by code_simp

section \<open>The check of the string accessor\<close>

lemma str_accessor_ok_iff:
  "str_accessor_ok cs \<longleftrightarrow>
     (let vs = filter (\<lambda>c. c \<noteq> NA) cs in
      vs = [] \<or> \<not> (list_all (\<lambda>c. is_int c \<or> is_flt c) vs \<or> list_all is_bool vs \<or> list_all is_ts vs))"
proof -
  define vs where "vs = filter (\<lambda>c. c \<noteq> NA) cs"
  have nn: "NA \<notin> set vs" by (simp add: vs_def)
  show ?thesis
  proof (cases vs)
    case Nil
    then show ?thesis
      by (simp add: str_accessor_ok_def infer_dtype_def allowed_types_def vs_def [symmetric] Let_def)
  next
    case (Cons v rest)
    then show ?thesis
      using nn
      by (cases v)
        (auto simp: str_accessor_ok_def infer_dtype_def allowed_types_def vs_def [symmetric]
          mixed_tail_def list_all_iff list_ex_iff Let_def split: if_splits)
  qed
qed

section \<open>A second run, and the run on the store\<close>

lemma clean_scenario2: "clean_data demo_parser demo_round scenario2 = Inr scenario2_out"
  by code_simp

lemma dropWhile_rev_strip:
  "dropWhile P (rev (dropWhile P (rev (dropWhile P s)))) = rev (dropWhile P (rev (dropWhile P s)))"
proof -
  define t where "t = dropWhile P s"
  define u where "u = dropWhile P (rev t)"
  have "dropWhile P (rev u) = rev u"
  proof (cases "u = []")
    case True
    then show ?thesis by simp
  next
    case False
    then have tn: "t \<noteq> []" by (auto simp: u_def)
    then have ht: "\<not> P (hd t)" unfolding t_def by (rule hd_dropWhile)
    have "rev t = takeWhile P (rev t) @ u" by (simp add: u_def)
    then have "last (rev t) = last u" using False by (metis last_appendR)
    then have "last u = hd t" using tn by (simp add: last_rev)
    then have "\<not> P (hd (rev u))" using ht False by (simp add: hd_rev)
    then show ?thesis by (simp add: dropWhile_eq_self_iff)
  qed
  then show ?thesis unfolding u_def t_def .
qed

lemma strip_idem: "strip (strip s) = strip s"
  unfolding strip_def by (simp add: dropWhile_rev_strip dropWhile_idem)

lemma strip_cell_idem: "strip_cell (strip_cell x) = strip_cell x"
  by (cases x) (simp_all add: strip_idem)

lemma strip_Unknown: "strip_cell (PyStr ''Unknown'') = PyStr ''Unknown''"
  by (simp add: strip_def is_space_def)

lemma fixed_fill_mode:
  assumes "\<forall>x\<in>set (cells c). strip_cell x = x"
  shows "\<forall>x\<in>set (cells (fill_mode c)). strip_cell x = x"
proof (cases "mode (cells c)")
  case Nil
  then show ?thesis
    using assms set_fillna [of "PyStr ''Unknown''" "cells c"] strip_Unknown
    by (auto simp: fill_mode_def)
next
  case (Cons m ms)
  then have "m \<in> set (cells c)" using mode_subset [of "cells c"] by auto
  then show ?thesis
    using assms Cons set_fillna [of m "cells c"] by (auto simp: fill_mode_def)
qed

lemma fixed_str_strip: "\<forall>x\<in>set (cells (str_strip c)). strip_cell x = x"
  by (simp add: str_strip_def strip_cell_idem)

lemma fixed_is_str: "strip_cell x = x \<Longrightarrow> x \<noteq> NA \<Longrightarrow> is_str x"
  by (cases x) simp_all

lemma str_strip_fixed:
  assumes "dtype c = Object" and "NA \<notin> set (cells c)" and "\<forall>x\<in>set (cells c). strip_cell x = x"
  shows "str_strip c = c"
proof -
  have "\<forall>x\<in>set (cells c). is_str x"
    using assms(2,3) fixed_is_str by metis
  then have "strip_dtype (cells c) = Object"
    by (auto simp: strip_dtype_def list_ex_iff)
  then show ?thesis using assms(1,3) by (simp add: str_strip_def map_idI)
qed

lemma fill_mode_no_NA: "NA \<notin> set (cells c) \<Longrightarrow> fill_mode c = c"
  by (simp add: fill_mode_def fillna_no_NA split: list.splits)

lemma fill_median_idem: "fill_median R (fill_median R c) = fill_median R c"
proof (cases "median R (cells c) = NA")
  case True
  then show ?thesis by (simp add: fill_median_def)
next
  case False
  then have "NA \<notin> set (cells (fill_median R c))"
    by (simp add: fill_median_def no_NA_fillna)
  then show ?thesis
    by (simp add: fill_median_def [of R "fill_median R c"] fillna_no_NA)
qed

lemma dtype_try_datetime_cases:
  "dtype c = Object \<Longrightarrow>
   dtype (try_datetime P c) = Object \<or> dtype (try_datetime P c) = Datetime64"
  by (simp add: try_datetime_conv date_dtype_def)

lemma try_datetime_str:
  assumes "dtype c = Object" and "dtype (try_datetime P c) = Object"
    and "\<forall>x\<in>set (cells (try_datetime P c)). is_str x"
  shows "try_datetime P c = c"
proof (rule ccontr)
  assume n: "try_datetime P c \<noteq> c"
  then have e: "try_datetime P c = c\<lparr>dtype := date_dtype (P (cells c)) (cells c),
             cells := map (date_cell (P (cells c))) (cells c)\<rparr>"
    using assms(1) by (auto simp: try_datetime_conv split: if_splits)
  have "cells c = []"
  proof (cases "cells c")
    case Nil
    then show ?thesis .
  next
    case (Cons x xs)
    then have "date_cell (P (cells c)) x \<in> set (cells (try_datetime P c))" by (simp add: e)
    then show ?thesis using assms(3) date_cell_not_str by blast
  qed
  then have "dtype (try_datetime P c) = Datetime64" by (simp add: e date_dtype_Nil)
  then show False using assms(2) by simp
qed

lemma all_str_ok:
  assumes "\<forall>x\<in>set cs. is_str x"
  shows "str_accessor_ok cs"
proof -
  define vs where "vs = filter (\<lambda>x. x \<noteq> NA) cs"
  have a: "\<forall>x\<in>set vs. is_str x" using assms by (simp add: vs_def)
  have "vs = [] \<or> \<not> (list_all (\<lambda>c. is_int c \<or> is_flt c) vs \<or> list_all is_bool vs \<or> list_all is_ts vs)"
  proof (cases vs)
    case Nil
    then show ?thesis by simp
  next
    case (Cons v rest)
    then have "is_str v" using a by simp
    then show ?thesis using Cons by (cases v) simp_all
  qed
  then show ?thesis by (simp add: str_accessor_ok_iff Let_def vs_def)
qed

lemma clean_col_fixed:
  assumes strs: "dtype (clean_col P R c) = Object \<longrightarrow> (\<forall>x\<in>set (cells (clean_col P R c)). is_str x)"
  shows "clean_col P R (clean_col P R c) = clean_col P R c \<and>
   (dtype (clean_col P R c) = Object \<longrightarrow> str_accessor_ok (cells (clean_col P R c)))"
proof (cases "dtype c = Object")
  case True
  define c' where "c' = fill_mode (str_strip c)"
  have dc': "dtype c' = Object" unfolding c'_def by (rule dtype_fill_mode_str_strip)
  have fx: "\<forall>x\<in>set (cells c'). strip_cell x = x"
    unfolding c'_def by (rule fixed_fill_mode) (rule fixed_str_strip)
  have nn: "NA \<notin> set (cells c')" unfolding c'_def by (rule no_NA_fill_mode)
  have cc: "clean_col P R c = try_datetime P c'" using True by (simp add: clean_col_def c'_def)
  have self: "fill_mode (str_strip c') = c'"
    using dc' fx nn by (simp add: str_strip_fixed fill_mode_no_NA)
  show ?thesis
  proof (cases "dtype (try_datetime P c') = Object")
    case obj: True
    then have "\<forall>x\<in>set (cells (try_datetime P c')). is_str x" using strs cc by simp
    with dc' obj have e: "try_datetime P c' = c'" by (rule try_datetime_str)
    have "clean_col P R c' = try_datetime P c'" using dc' self by (simp add: clean_col_def)
    then have a: "clean_col P R (clean_col P R c) = clean_col P R c" using cc e by simp
    have "\<forall>x\<in>set (cells c'). is_str x"
      using fx nn fixed_is_str by metis
    then have "str_accessor_ok (cells c')" by (rule all_str_ok)
    then show ?thesis using a cc e by simp
  next
    case False
    then have d: "dtype (try_datetime P c') = Datetime64"
      using dtype_try_datetime_cases [OF dc', of P] by auto
    then have "clean_col P R (try_datetime P c') = try_datetime P c'"
      by (simp add: clean_col_def is_number_def try_datetime_not_object)
    then show ?thesis using cc d by simp
  qed
next
  case False
  show ?thesis
  proof (cases "is_number (dtype c)")
    case True
    then have cc: "clean_col P R c = fill_median R c"
      using False by (simp add: clean_col_def try_datetime_not_object)
    then show ?thesis using True False
      by (simp add: clean_col_def [of P R "fill_median R c"] fill_median_idem try_datetime_not_object)
  next
    case nn: False
    then have "clean_col P R c = c" using False by (simp add: clean_col_def try_datetime_not_object)
    then show ?thesis using False by simp
  qed
qed

lemma take_rows_all: "take_rows [0..<length (cells c)] c = c"
  by (simp add: take_rows_def map_nth)

lemma drop_duplicates_distinct:
  assumes "distinct (key_rows df)" and "\<forall>c\<in>set df. length (cells c) = nrows df"
  shows "drop_duplicates df = df"
proof -
  have "first_idx (key_rows df) = [0..<nrows df]"
    using first_idx_distinct [OF assms(1)] by (simp add: length_key_rows)
  then have "drop_duplicates df = map (take_rows [0..<nrows df]) df"
    by (simp add: drop_duplicates_def)
  also have "\<dots> = df"
    using assms(2) by (intro map_idI) (metis take_rows_all)
  finally show ?thesis .
qed

lemma rect_drop_duplicates:
  "\<forall>c\<in>set (drop_duplicates df). length (cells c) = nrows (drop_duplicates df)"
  by (simp add: nrows_drop_duplicates) (simp add: drop_duplicates_def take_rows_def)

lemma idempotent_helper:
  assumes d: "distinct (map name df)" and c: "clean_data P R df = Inr out"
    and k: "distinct (key_rows out)"
    and strs: "\<forall>c\<in>set out. dtype c = Object \<longrightarrow> (\<forall>x\<in>set (cells c). is_str x)"
  shows "clean_data P R out = Inr out"
proof -
  have o: "out = map (clean_col P R) (drop_duplicates df)"
    using c by (simp add: clean_data_cols [OF d] split: if_splits)
  have n: "nrows out = nrows (drop_duplicates df)" using c by (rule nrows_clean_data)
  have rect: "\<forall>c\<in>set out. length (cells c) = nrows out"
    unfolding n using rect_drop_duplicates [of df] by (auto simp: o)
  have dd: "drop_duplicates out = out" using k rect by (rule drop_duplicates_distinct)
  have dn: "distinct (map name out)" using d names_clean_data [OF c] by simp
  have fixed: "\<forall>c\<in>set out. clean_col P R c = c \<and> (dtype c = Object \<longrightarrow> str_accessor_ok (cells c))"
  proof
    fix c assume "c \<in> set out"
    then obtain c1 where c1: "c = clean_col P R c1" by (auto simp: o)
    have "dtype (clean_col P R c1) = Object \<longrightarrow> (\<forall>x\<in>set (cells (clean_col P R c1)). is_str x)"
      using strs \<open>c \<in> set out\<close> c1 by simp
    then show "clean_col P R c = c \<and> (dtype c = Object \<longrightarrow> str_accessor_ok (cells c))"
      unfolding c1 by (rule clean_col_fixed)
  qed
  then have "map (clean_col P R) out = out" by (simp add: map_idI)
  then show ?thesis
    using fixed by (simp add: clean_data_cols [OF dn] dd)
qed

lemma clean_data_ref_conv:
  assumes "r < length h"
  shows "clean_data_ref P R h r =
     (case clean_data P R (h ! r) of
        Inl e \<Rightarrow> (h @ [drop_duplicates (h ! r)], Inl e)
      | Inr out \<Rightarrow> (h @ [out], Inr (length h)))"
  by (simp add: clean_data_ref_def clean_data_def Let_def split: sum.splits)

lemma clean_scenario2_out:
  "clean_data demo_parser demo_round scenario2_out =
     Inr [\<lparr>name = ''t'', dtype = Object, cells = [PyStr ''x'', PyStr ''y'']\<rparr>]"
  by code_simp

lemma clean_ref_scenario2:
  "clean_data_ref demo_parser demo_round [scenario2] 0 = ([scenario2, scenario2_out], Inr 1)"
  by code_simp

section \<open>Further tables, evaluated\<close>

lemma clean_scenario3:
  "clean_data demo_parser demo_round scenario3 =
     Inr [\<lparr>name = ''d'', dtype = Datetime64,
           cells = [Timestamp 1704067200000000000, Timestamp 1707955200000000000,
                    Timestamp 1710028800000000000]\<rparr>]"
  by code_simp

lemma clean_scenario4: "clean_data demo_parser demo_round scenario4 = Inr scenario4"
  by code_simp

lemma clean_offsets: "clean_data demo_parser demo_round offsets_frame = Inr offsets_out"
  by code_simp



lemma clean_offsets_out: "clean_data demo_parser demo_round offsets_out = Inl AttributeError"
  by code_simp


section \<open>When the pipeline raises\<close>

text \<open>
  On a table with unique column names the pipeline raises \<^verbatim>\<open>AttributeError\<close> exactly
  when, after Stage 1, some object column has non-missing values that are all numbers,
  all booleans or all timestamps: the string accessor of Stage 2 refuses such a column.
  On every other table it returns a table; a parse failure of Stage 5 never raises.
\<close>

lemma raises_exactly_when:
  assumes "distinct (map name df)"
  shows "if \<exists>c\<in>set (drop_duplicates df). dtype c = Object \<and>
            (let vs = filter (\<lambda>x. x \<noteq> NA) (cells c) in
             vs \<noteq> [] \<and> (list_all (\<lambda>x. is_int x \<or> is_flt x) vs \<or> list_all is_bool vs \<or> list_all is_ts vs))
         then clean_data P R df = Inl AttributeError
         else \<exists>out. clean_data P R df = Inr out"
proof -
  let ?ok = "\<forall>c\<in>set (drop_duplicates df). dtype c = Object \<longrightarrow> str_accessor_ok (cells c)"
  let ?bad = "\<exists>c\<in>set (drop_duplicates df). dtype c = Object \<and>
            (let vs = filter (\<lambda>x. x \<noteq> NA) (cells c) in
             vs \<noteq> [] \<and> (list_all (\<lambda>x. is_int x \<or> is_flt x) vs \<or> list_all is_bool vs \<or> list_all is_ts vs))"
  have eq: "?bad = (\<not> ?ok)"
    by (simp add: str_accessor_ok_iff Let_def)
  show ?thesis
  proof (cases ?ok)
    case True
    then have r: "clean_data P R df = Inr (map (clean_col P R) (drop_duplicates df))"
      using clean_data_cols [OF assms, of P R] by simp
    have nb: "\<not> ?bad" using True eq by blast
    show ?thesis by (subst if_not_P [OF nb]) (rule exI, rule r)
  next
    case False
    then have r: "clean_data P R df = Inl AttributeError"
      using clean_data_cols [OF assms, of P R] by simp
    have b: "?bad" using False eq by blast
    show ?thesis by (subst if_P [OF b]) (rule r)
  qed
qed

section \<open>The claims\<close>

text \<open>
  Claim C5 (column-set invariance). Whenever the pipeline returns a table, the table has
  exactly the column names of the input, in the same order: no stage adds, removes,
  renames or reorders a column.
\<close>

theorem column_set_invariance:
  "clean_data P R df = Inr out \<Longrightarrow> map name out = map name df"
  by (rule names_clean_data)

text \<open>Scenario 1 of the spec: the columns \<open>name\<close> and \<open>val\<close> come back in that order.\<close>

theorem column_set_invariance_witness:
  "clean_data demo_parser demo_round scenario1 = Inr scenario1_out \<and>
   map name scenario1_out = [''name'', ''val''] \<and> map name scenario1 = [''name'', ''val'']"
  using column_set_invariance [OF clean_scenario1] clean_scenario1
  by (simp add: scenario1_def)

text \<open>
  Claim C4 (row count). Whenever the pipeline returns a table, its row count is the
  number of distinct rows of the input (rows compared cell by cell with Python
  equality, as \<open>key_rows\<close> has them), hence at most the input's row count. Stage 1 keeps
  the rows at the positions \<open>first_idx\<close>, in increasing order of position, and a position
  is kept exactly when no earlier row equals its row. None of the loops of Stages 2 to 5
  changes the row count.
\<close>

theorem row_count:
  assumes "clean_data P R df = Inr out"
  shows "nrows out = card (set (key_rows df)) \<and>
         nrows out \<le> nrows df \<and>
         rows (drop_duplicates df) = map (row df) (first_idx (key_rows df)) \<and>
         sorted_wrt (<) (first_idx (key_rows df)) \<and>
         (\<forall>i. i \<in> set (first_idx (key_rows df)) \<longleftrightarrow>
              i < nrows df \<and> (\<forall>j<i. key_rows df ! j \<noteq> key_rows df ! i)) \<and>
         (\<forall>ns d d'. strip_cols ns d = Inr d' \<longrightarrow> nrows d' = nrows d) \<and>
         (\<forall>ns d. nrows (for_cols ns (fill_median R) d) = nrows d) \<and>
         (\<forall>ns d. nrows (for_cols ns fill_mode d) = nrows d) \<and>
         (\<forall>ns d. nrows (for_cols ns (try_datetime P) d) = nrows d)"
proof -
  have n: "nrows out = length (first_idx (key_rows df))"
    using nrows_clean_data [OF assms] by (simp add: nrows_drop_duplicates)
  have a: "nrows out = card (set (key_rows df))"
    using n by (simp add: length_first_idx)
  have b: "nrows out \<le> nrows df"
    using n length_first_idx_le [of "key_rows df"] by (simp add: length_key_rows)
  have c: "\<forall>i. i \<in> set (first_idx (key_rows df)) \<longleftrightarrow>
              i < nrows df \<and> (\<forall>j<i. key_rows df ! j \<noteq> key_rows df ! i)"
    by (simp add: first_idx_iff length_key_rows)
  have d: "\<forall>ns d d'. strip_cols ns d = Inr d' \<longrightarrow> nrows d' = nrows d"
    using nrows_strip_cols by blast
  show ?thesis
    using a b c d by (simp add: rows_drop_duplicates sorted_first_idx nrows_for_cols)
qed

text \<open>Scenario 1: three rows, the second a duplicate of the first; two rows survive.\<close>

theorem row_count_witness:
  "nrows scenario1 = 3 \<and> nrows scenario1_out = 2 \<and>
   card (set (key_rows scenario1)) = 2 \<and>
   rows (drop_duplicates scenario1) = [[PyStr ''a'', PyFloat (Fin 1)], [PyStr ''b'', NA]] \<and>
   first_idx (key_rows scenario1) = [0, 2]"
proof -
  have f: "first_idx (key_rows scenario1) = [0, 2]" by code_simp
  have r: "map (row scenario1) [0, 2] = [[PyStr ''a'', PyFloat (Fin 1)], [PyStr ''b'', NA]]"
    by code_simp
  have n: "nrows scenario1 = 3 \<and> nrows scenario1_out = 2"
    by (simp add: nrows_def scenario1_def scenario1_out_def)
  show ?thesis
    using row_count [OF clean_scenario1] f r n by simp
qed

text \<open>
  Claim C2 (all-or-nothing date coercion), as amended. Let the pipeline return \<open>out\<close> on a
  table with unique column names, and let \<open>d4\<close> be the frame Stage 5 starts from (the
  frame after Stages 1 to 4). A column that is no object column of \<open>d4\<close> is in \<open>out\<close> as it
  is in \<open>d4\<close>. For an object column of \<open>d4\<close>: if the parser fails on some non-missing cell,
  the column is in \<open>out\<close> exactly as it is in \<open>d4\<close>, values and dtype; otherwise the whole
  column is replaced, a cell the parser reads as an instant by its timestamp and every
  other cell (a missing one, or one the parser reads as \<^verbatim>\<open>NaT\<close>, such as the empty
  string) by the missing marker, and the dtype becomes \<open>Datetime64\<close> when the parsed
  cells have one UTC offset or none, and stays \<open>Object\<close> when their offsets differ.
  No partly converted column arises. The claim as stated, that a column whose values
  all parse gets the date type, fails: see the counterexample below.
\<close>

theorem date_coercion_all_or_nothing:
  assumes d: "distinct (map name df)" and c: "clean_data P R df = Inr out"
  shows "\<exists>d2 d4.
           strip_cols (select_dtypes is_object (drop_duplicates df)) (drop_duplicates df) = Inr d2 \<and>
           d4 = for_cols (select_dtypes is_object (drop_duplicates df)) fill_mode
                  (for_cols (select_dtypes is_number d2) (fill_median R) d2) \<and>
           length out = length d4 \<and>
           (\<forall>i<length d4.
              if dtype (d4 ! i) = Object
              then (if \<forall>x\<in>set (cells (d4 ! i)). x \<noteq> NA \<longrightarrow> P (cells (d4 ! i)) x \<noteq> Unparsable
                    then out ! i =
                           (d4 ! i)\<lparr>dtype := date_dtype (P (cells (d4 ! i))) (cells (d4 ! i)),
                                    cells := map (date_cell (P (cells (d4 ! i)))) (cells (d4 ! i))\<rparr>
                    else out ! i = d4 ! i)
              else out ! i = d4 ! i)"
proof -
  let ?d1 = "drop_duplicates df"
  let ?sc = "select_dtypes is_object ?d1"
  obtain d2 where d2: "strip_cols ?sc ?d1 = Inr d2"
    and o: "out = for_cols (map name d2) (try_datetime P)
                  (for_cols ?sc fill_mode (for_cols (select_dtypes is_number d2) (fill_median R) d2))"
    using clean_data_stages [OF d c] by blast
  define d4 where "d4 = for_cols ?sc fill_mode (for_cols (select_dtypes is_number d2) (fill_median R) d2)"
  have n2: "map name d2 = map name ?d1" using d2 by (rule name_strip_cols)
  have n4: "map name d4 = map name d2" by (simp add: d4_def name_for_cols)
  have dd4: "distinct (map name d4)" using d n4 n2 by (simp add: name_drop_duplicates)
  have "out = for_cols (map name d4) (try_datetime P) d4"
    using o by (simp add: d4_def name_for_cols)
  then have om: "out = map (try_datetime P) d4"
    using dd4 by (simp add: for_cols_all)
  have "\<forall>i<length d4.
              if dtype (d4 ! i) = Object
              then (if \<forall>x\<in>set (cells (d4 ! i)). x \<noteq> NA \<longrightarrow> P (cells (d4 ! i)) x \<noteq> Unparsable
                    then out ! i =
                           (d4 ! i)\<lparr>dtype := date_dtype (P (cells (d4 ! i))) (cells (d4 ! i)),
                                    cells := map (date_cell (P (cells (d4 ! i)))) (cells (d4 ! i))\<rparr>
                    else out ! i = d4 ! i)
              else out ! i = d4 ! i"
  proof (intro allI impI)
    fix i assume i: "i < length d4"
    then have e: "out ! i = try_datetime P (d4 ! i)" by (simp add: om)
    show "if dtype (d4 ! i) = Object
              then (if \<forall>x\<in>set (cells (d4 ! i)). x \<noteq> NA \<longrightarrow> P (cells (d4 ! i)) x \<noteq> Unparsable
                    then out ! i =
                           (d4 ! i)\<lparr>dtype := date_dtype (P (cells (d4 ! i))) (cells (d4 ! i)),
                                    cells := map (date_cell (P (cells (d4 ! i)))) (cells (d4 ! i))\<rparr>
                    else out ! i = d4 ! i)
              else out ! i = d4 ! i"
    proof (cases "dtype (d4 ! i) = Object")
      case True
      then show ?thesis unfolding e by (auto simp: try_datetime_conv)
    next
      case False
      then show ?thesis unfolding e by (simp add: try_datetime_not_object)
    qed
  qed
  moreover have "length out = length d4" by (simp add: om)
  ultimately show ?thesis using d2 d4_def by blast
qed

text \<open>
  Scenario 4 (one string does not parse) comes back as it went in; Scenario 3 (all three
  strings parse) comes back as a \<open>Datetime64\<close> column.
\<close>

theorem date_coercion_witness:
  "clean_data demo_parser demo_round scenario3 =
     Inr [\<lparr>name = ''d'', dtype = Datetime64,
           cells = [Timestamp 1704067200000000000, Timestamp 1707955200000000000,
                    Timestamp 1710028800000000000]\<rparr>] \<and>
   clean_data demo_parser demo_round scenario4 = Inr scenario4"
proof -
  have d: "distinct (map name scenario4)" by (simp add: scenario4_def)
  show ?thesis
    using date_coercion_all_or_nothing [OF d clean_scenario4] clean_scenario3 clean_scenario4
    by (intro conjI) assumption+
qed

text \<open>
  Counterexample to claim C2 as stated. Two date strings with different UTC offsets both
  parse; the column is replaced by the parsed instants, but its dtype is still \<open>Object\<close>.
\<close>

theorem dates_with_offsets_stay_object:
  "clean_data demo_parser demo_round offsets_frame =
     Inr [\<lparr>name = ''ts'', dtype = Object,
           cells = [Timestamp 1704063600000000000, Timestamp 1704146400000000000]\<rparr>]"
  using clean_offsets by (simp add: offsets_out_def)




text \<open>
  Claim C8 (all-missing numeric column), as amended. In a well-formed table, for a
  column that is numeric in the input and whose cells are all missing: the median Stage 3
  computes is the missing marker itself, the fill changes nothing, and the column of the
  output is missing in every row, with its dtype unchanged. The claim as stated, for
  every column that Stage 3 classifies as numeric, fails: see the counterexample below.
\<close>

theorem all_missing_numeric:
  assumes wf: "wf_frame df" and c: "clean_data P R df = Inr out" and i: "i < length df"
    and t: "is_number (dtype (df ! i))" and x: "set (cells (df ! i)) \<subseteq> {NA}"
  shows "median R (cells (drop_duplicates df ! i)) = NA \<and>
         fill_median R (drop_duplicates df ! i) = drop_duplicates df ! i \<and>
         cells (out ! i) = replicate (nrows out) NA \<and>
         dtype (out ! i) = dtype (df ! i)"
proof -
  let ?c1 = "take_rows (first_idx (key_rows df)) (df ! i)"
  have d1: "drop_duplicates df ! i = ?c1" using i by (simp add: drop_duplicates_def)
  have o: "out ! i = clean_col P R ?c1"
    using wf c i by (simp add: clean_data_nth wf_frame_distinct)
  have dt: "dtype ?c1 = dtype (df ! i)" by (simp add: take_rows_def)
  have n: "nrows out = nrows (drop_duplicates df)" using c by (rule nrows_clean_data)
  have cs: "cells ?c1 = replicate (nrows out) NA"
    using dedup_all_missing [OF wf i x] n by simp
  then have "set (cells ?c1) \<subseteq> {NA}" by (auto simp: set_replicate_conv_if)
  then have m: "median R (cells ?c1) = NA" by (rule median_all_NA)
  then have f: "fill_median R ?c1 = ?c1" by (simp add: fill_median_def)
  have "clean_col P R ?c1 = ?c1"
    using t dt f by (auto simp: clean_col_def try_datetime_def is_number_def)
  then show ?thesis using d1 o m f cs dt by simp
qed

text \<open>Scenario 5: three missing cells; the three equal rows collapse to one, still missing.\<close>

theorem all_missing_numeric_witness:
  "clean_data demo_parser demo_round scenario5 = Inr [\<lparr>name = ''v'', dtype = Float64, cells = [NA]\<rparr>] \<and>
   median demo_round (cells (drop_duplicates scenario5 ! 0)) = NA \<and>
   cells ([\<lparr>name = ''v'', dtype = Float64, cells = [NA]\<rparr>] ! 0) = replicate 1 NA"
  using all_missing_numeric [OF wf_scenario5 clean_scenario5, of 0] clean_scenario5
  by (simp add: scenario5_def is_number_def nrows_def)

text \<open>
  Counterexample to claim C8 as stated. The numeric columns are selected after Stage 2
  (line 101). The object column \<open>e\<close> holds integers and a boolean; Stage 2 makes it an
  all-missing \<open>Float64\<close> column, Stage 3 selects it as numeric and finds no median, and
  Stage 4, which still has it among the text columns, writes \<^verbatim>\<open>"Unknown"\<close> into every
  row: the column does not remain missing.
\<close>

theorem numeric_classified_column_filled:
  "strip_cols (select_dtypes is_object (drop_duplicates snapshot_frame)) (drop_duplicates snapshot_frame)
     = Inr snapshot_stripped \<and>
   select_dtypes is_number snapshot_stripped = [''e''] \<and>
   cells (snapshot_stripped ! 1) = [NA, NA, NA, NA] \<and>
   median demo_round (cells (snapshot_stripped ! 1)) = NA \<and>
   clean_data demo_parser demo_round snapshot_frame = Inr snapshot_out \<and>
   cells (snapshot_out ! 1) =
     [PyStr ''Unknown'', PyStr ''Unknown'', PyStr ''Unknown'', PyStr ''Unknown'']"
proof -
  have m: "median demo_round (cells (snapshot_stripped ! 1)) = NA" by code_simp
  have n: "select_dtypes is_number snapshot_stripped = [''e'']"
    by (simp add: select_dtypes_def snapshot_stripped_def is_number_def)
  show ?thesis
    using strip_snapshot clean_snapshot m n
    by (simp add: snapshot_stripped_def snapshot_out_def)
qed

text \<open>
  Claim C6 (no-throw contract): the code does not keep it. A column of \<^verbatim>\<open>True\<close>/\<^verbatim>\<open>False\<close>
  with one empty field is what \<^verbatim>\<open>read_csv\<close> returns as an object column of booleans and
  \<^verbatim>\<open>NaN\<close>. The string accessor of Stage 2 (line 98) refuses it with \<^verbatim>\<open>AttributeError\<close>;
  the statement stands outside any \<^verbatim>\<open>try\<close>, and so does the call of \<^verbatim>\<open>clean_data\<close> in
  \<^verbatim>\<open>upload\<close>: the pipeline raises instead of returning a table. Lemma
  \<open>raises_exactly_when\<close> above says on which tables this happens.
\<close>

theorem clean_raises_on_boolean_text_column:
  "wf_frame flags_frame \<and> clean_data demo_parser demo_round flags_frame = Inl AttributeError"
proof -
  have "clean_data demo_parser demo_round flags_frame = Inl AttributeError" by code_simp
  then show ?thesis by (simp add: wf_frame_def flags_frame_def nrows_def)
qed

text \<open>
  Claim C10 (non-string cells of a text column). When the pipeline returns on a table
  with unique column names, Stage 2 has turned an object column into the image of
  \<open>strip_cell\<close>, which maps every cell that is no string, missing or not, to the missing
  marker; Stage 4 then writes the column's mode, or \<^verbatim>\<open>"Unknown"\<close> when there is none,
  into every missing cell, and the output column is that column after the date attempt.
\<close>

theorem strip_non_strings:
  assumes d: "distinct (map name df)" and c: "clean_data P R df = Inr out"
    and i: "i < length df" and t: "dtype (df ! i) = Object"
  shows "\<exists>df2. strip_cols (select_dtypes is_object (drop_duplicates df)) (drop_duplicates df) = Inr df2 \<and>
           cells (df2 ! i) = map strip_cell (cells (drop_duplicates df ! i)) \<and>
           (\<forall>x. \<not> is_str x \<longrightarrow> strip_cell x = NA) \<and>
           out ! i = try_datetime P (fill_mode (df2 ! i)) \<and>
           cells (fill_mode (df2 ! i)) =
             map (\<lambda>x. if x = NA
                       then (case mode (cells (df2 ! i)) of [] \<Rightarrow> PyStr ''Unknown'' | m # ms \<Rightarrow> m)
                       else x) (cells (df2 ! i))"
proof -
  let ?d1 = "drop_duplicates df"
  obtain d2 where d2: "strip_cols (select_dtypes is_object ?d1) ?d1 = Inr d2"
    and e: "d2 = map (\<lambda>c. if dtype c = Object then str_strip c else c) ?d1"
    using clean_data_stages [OF d c] by blast
  have i1: "i < length ?d1" using i by (simp add: drop_duplicates_def)
  have t1: "dtype (?d1 ! i) = Object" using i t by (simp add: drop_duplicates_def take_rows_def)
  have s: "d2 ! i = str_strip (?d1 ! i)" using e i1 t1 by simp
  have a: "cells (d2 ! i) = map strip_cell (cells (?d1 ! i))"
    by (simp add: s str_strip_def)
  have b: "\<forall>x. \<not> is_str x \<longrightarrow> strip_cell x = NA"
  proof (intro allI impI)
    fix x assume "\<not> is_str x" then show "strip_cell x = NA" by (cases x) simp_all
  qed
  have o: "out ! i = try_datetime P (fill_mode (d2 ! i))"
    using clean_data_nth [OF d c i] i t1 s
    by (simp add: clean_col_def drop_duplicates_def)
  have f: "cells (fill_mode (d2 ! i)) =
             map (\<lambda>x. if x = NA
                       then (case mode (cells (d2 ! i)) of [] \<Rightarrow> PyStr ''Unknown'' | m # ms \<Rightarrow> m)
                       else x) (cells (d2 ! i))"
    by (simp add: fill_mode_def fillna_def split: list.splits)
  show ?thesis using d2 a b o f by blast
qed

text \<open>The integer 7 of the input is missing after Stage 2 and comes out as the mode.\<close>

theorem strip_non_strings_witness:
  "clean_data demo_parser demo_round mixed_frame =
     Inr [\<lparr>name = ''m'', dtype = Object, cells = [PyStr ''a'', PyStr ''a'']\<rparr>] \<and>
   cells (mixed_frame ! 0) = [PyInt 7, PyStr '' a ''] \<and>
   (\<exists>df2. strip_cols (select_dtypes is_object (drop_duplicates mixed_frame)) (drop_duplicates mixed_frame) = Inr df2 \<and>
      cells (df2 ! 0) = [NA, PyStr ''a''])"
proof -
  have d: "distinct (map name mixed_frame)" by (simp add: mixed_frame_def)
  have dd: "drop_duplicates mixed_frame = mixed_frame" by code_simp
  have s: "map strip_cell (cells (mixed_frame ! 0)) = [NA, PyStr ''a'']" by code_simp
  obtain df2 where "strip_cols (select_dtypes is_object (drop_duplicates mixed_frame)) (drop_duplicates mixed_frame) = Inr df2"
    and "cells (df2 ! 0) = map strip_cell (cells (drop_duplicates mixed_frame ! 0))"
    using strip_non_strings [OF d clean_mixed, of 0] by (auto simp: mixed_frame_def)
  then have "\<exists>df2. strip_cols (select_dtypes is_object (drop_duplicates mixed_frame)) (drop_duplicates mixed_frame) = Inr df2 \<and>
      cells (df2 ! 0) = [NA, PyStr ''a'']"
    using dd s by auto
  then show ?thesis using clean_mixed by (simp add: mixed_frame_def)
qed

text \<open>
  Claim C7 (text columns are a snapshot). When the pipeline returns on a table with
  unique column names: the names \<open>select_dtypes is_object\<close> of the deduplicated frame,
  taken before Stage 2, are the ones Stage 4 loops over; Stage 4 applies the mode fill to
  a column exactly when that column was an object column of the deduplicated frame,
  whatever Stage 2 made of it; stripping adds no column to the object columns, and the
  classification is not taken again.
\<close>

theorem text_columns_snapshot:
  assumes d: "distinct (map name df)" and c: "clean_data P R df = Inr out"
  shows "\<exists>d2 d3 d4.
           strip_cols (select_dtypes is_object (drop_duplicates df)) (drop_duplicates df) = Inr d2 \<and>
           d3 = for_cols (select_dtypes is_number d2) (fill_median R) d2 \<and>
           d4 = for_cols (select_dtypes is_object (drop_duplicates df)) fill_mode d3 \<and>
           out = for_cols (map name d4) (try_datetime P) d4 \<and>
           d4 = map2 (\<lambda>c0 c. if dtype c0 = Object then fill_mode c else c) (drop_duplicates df) d3 \<and>
           set (select_dtypes is_object d2) \<subseteq> set (select_dtypes is_object (drop_duplicates df))"
proof -
  let ?d1 = "drop_duplicates df"
  let ?sc = "select_dtypes is_object ?d1"
  have dd: "distinct (map name ?d1)" using d by (simp add: name_drop_duplicates)
  obtain d2 where d2: "strip_cols ?sc ?d1 = Inr d2"
    and e: "d2 = map (\<lambda>c. if dtype c = Object then str_strip c else c) ?d1"
    and o: "out = for_cols (map name d2) (try_datetime P)
                  (for_cols ?sc fill_mode (for_cols (select_dtypes is_number d2) (fill_median R) d2))"
    using clean_data_stages [OF d c] by blast
  define d3 where "d3 = for_cols (select_dtypes is_number d2) (fill_median R) d2"
  define d4 where "d4 = for_cols ?sc fill_mode d3"
  have n2: "map name d2 = map name ?d1" using d2 by (rule name_strip_cols)
  have n3: "map name d3 = map name ?d1" by (simp add: d3_def name_for_cols n2)
  have n4: "map name d4 = map name d2" by (simp add: d4_def name_for_cols n3 n2)
  have m: "d4 = map2 (\<lambda>c0 c. if dtype c0 = Object then fill_mode c else c) ?d1 d3"
    unfolding d4_def using dd n3 by (rule mode_stage)
  have sub: "set (select_dtypes is_object d2) \<subseteq> set ?sc"
    unfolding e by (auto simp: select_dtypes_def is_object_def split: if_splits)
  have o4: "out = for_cols (map name d4) (try_datetime P) d4"
    using o unfolding n4 d4_def d3_def by (simp add: name_for_cols)
  have "strip_cols ?sc ?d1 = Inr d2 \<and>
        d3 = for_cols (select_dtypes is_number d2) (fill_median R) d2 \<and>
        d4 = for_cols ?sc fill_mode d3 \<and>
        out = for_cols (map name d4) (try_datetime P) d4 \<and>
        d4 = map2 (\<lambda>c0 c. if dtype c0 = Object then fill_mode c else c) ?d1 d3 \<and>
        set (select_dtypes is_object d2) \<subseteq> set ?sc"
    using d2 d3_def d4_def o4 m sub by blast
  then show ?thesis by blast
qed

text \<open>
  Two text columns: the stripped values of \<open>n\<close> all look numeric, and \<open>e\<close> holds no string,
  so that Stage 2 leaves it as an all-missing \<open>Float64\<close> column, which Stage 3 takes for
  numeric. Both are in the snapshot, and Stage 4 fills both.
\<close>

theorem text_columns_snapshot_witness:
  "clean_data demo_parser demo_round snapshot_frame = Inr snapshot_out \<and>
   select_dtypes is_object (drop_duplicates snapshot_frame) = [''n'', ''e''] \<and>
   strip_cols [''n'', ''e''] (drop_duplicates snapshot_frame) = Inr snapshot_stripped \<and>
   select_dtypes is_number snapshot_stripped = [''e''] \<and>
   select_dtypes is_object snapshot_stripped = [''n''] \<and>
   snapshot_out =
     for_cols [''n'', ''e''] (try_datetime demo_parser)
       (for_cols [''n'', ''e''] fill_mode (for_cols [''e''] (fill_median demo_round) snapshot_stripped))"
proof -
  have d: "distinct (map name snapshot_frame)" by (simp add: snapshot_frame_def)
  have sc: "select_dtypes is_object (drop_duplicates snapshot_frame) = [''n'', ''e'']" by code_simp
  have nc: "select_dtypes is_number snapshot_stripped = [''e'']"
    by (simp add: select_dtypes_def snapshot_stripped_def is_number_def)
  have oc: "select_dtypes is_object snapshot_stripped = [''n'']"
    by (simp add: select_dtypes_def snapshot_stripped_def is_object_def)
  obtain d2 d3 d4 where
    a: "strip_cols (select_dtypes is_object (drop_duplicates snapshot_frame)) (drop_duplicates snapshot_frame) = Inr d2"
    and b: "d3 = for_cols (select_dtypes is_number d2) (fill_median demo_round) d2"
    and c: "d4 = for_cols (select_dtypes is_object (drop_duplicates snapshot_frame)) fill_mode d3"
    and e: "snapshot_out = for_cols (map name d4) (try_datetime demo_parser) d4"
    using text_columns_snapshot [OF d clean_snapshot] by blast
  have d2: "d2 = snapshot_stripped" using a strip_snapshot by simp
  have n4: "map name d4 = [''n'', ''e'']"
    unfolding c b d2 by (simp add: name_for_cols snapshot_stripped_def)
  have "snapshot_out =
     for_cols [''n'', ''e''] (try_datetime demo_parser)
       (for_cols [''n'', ''e''] fill_mode (for_cols [''e''] (fill_median demo_round) snapshot_stripped))"
    using e unfolding n4 unfolding c b d2 sc nc .
  then show ?thesis
    using clean_snapshot sc nc oc strip_snapshot by simp
qed

text \<open>
  Claim C1 (idempotence), as amended. When the pipeline returns a table on an input with
  unique column names, no two rows of that table are equal, and every object column of
  that table holds strings only, then the pipeline run on that table returns the same
  table. The claim as stated, for every table, fails: see the counterexample below.
\<close>

theorem idempotent_without_new_duplicates:
  assumes "distinct (map name df)" and "clean_data P R df = Inr out"
    and "distinct (key_rows out)"
    and "\<forall>c\<in>set out. dtype c = Object \<longrightarrow> (\<forall>x\<in>set (cells c). is_str x)"
  shows "clean_data P R out = Inr out"
  using assms by (rule idempotent_helper)

text \<open>Scenario 1: the two rows of the output differ, and a second run changes nothing.\<close>

theorem idempotent_witness:
  "clean_data demo_parser demo_round scenario1 = Inr scenario1_out \<and>
   key_rows scenario1_out = [[PyStr ''a'', PyFloat (Fin 1)], [PyStr ''b'', PyFloat (Fin 1)]] \<and>
   clean_data demo_parser demo_round scenario1_out = Inr scenario1_out"
proof -
  have d: "distinct (map name scenario1)" by (simp add: scenario1_def)
  have k: "key_rows scenario1_out = [[PyStr ''a'', PyFloat (Fin 1)], [PyStr ''b'', PyFloat (Fin 1)]]"
    by code_simp
  have dk: "distinct (key_rows scenario1_out)" unfolding k by simp
  have s: "\<forall>c\<in>set scenario1_out. dtype c = Object \<longrightarrow> (\<forall>x\<in>set (cells c). is_str x)"
    by (simp add: scenario1_out_def)
  show ?thesis
    using idempotent_without_new_duplicates [OF d clean_scenario1 dk s] clean_scenario1 k by simp
qed

text \<open>
  Counterexample to claim C1 as stated. Scenario 2 of the spec: the mode fill of the
  first run makes the third row equal to the first, Stage 1 of the first run had already
  passed, and Stage 1 of the second run removes the row. Three rows after one run, two
  after two.
\<close>

theorem second_run_removes_rows:
  "clean_data demo_parser demo_round scenario2 = Inr scenario2_out \<and>
   clean_data demo_parser demo_round scenario2_out =
     Inr [\<lparr>name = ''t'', dtype = Object, cells = [PyStr ''x'', PyStr ''y'']\<rparr>] \<and>
   scenario2_out \<noteq> [\<lparr>name = ''t'', dtype = Object, cells = [PyStr ''x'', PyStr ''y'']\<rparr>]"
  using clean_scenario2 clean_scenario2_out by (simp add: scenario2_out_def)

text \<open>
  The second hypothesis of the amended claim is needed as well. The first run leaves two
  dates with different UTC offsets as an object column of timestamps; its rows differ,
  and the string accessor of the second run refuses the column.
\<close>

lemma second_run_raises_on_offset_dates:
  "clean_data demo_parser demo_round offsets_frame = Inr offsets_out \<and>
   distinct (key_rows offsets_out) \<and>
   clean_data demo_parser demo_round offsets_out = Inl AttributeError"
proof -
  have "key_rows offsets_out = [[Timestamp 1704063600000000000], [Timestamp 1704146400000000000]]"
    by code_simp
  then show ?thesis using clean_offsets clean_offsets_out by simp
qed

text \<open>
  Claim C9 (in-place mutation), as amended. The pipeline never changes the frame the
  caller passed: Stage 1 returns a new frame, the local name is bound to it, and every
  later statement changes the new frame only. After the call the store holds the
  caller's frame as it was, every other frame as it was, and one new frame, the result,
  at the returned reference. The claim as stated fails: see the counterexample below.
\<close>

theorem caller_table_untouched:
  assumes "r < length h" and "clean_data_ref P R h r = (h', res)"
  shows "h' ! r = h ! r \<and> take (length h) h' = h \<and>
         (case res of
            Inr r' \<Rightarrow> r' = length h \<and> r' \<noteq> r \<and> clean_data P R (h ! r) = Inr (h' ! r')
          | Inl e \<Rightarrow> clean_data P R (h ! r) = Inl e)"
  using assms
  by (cases "clean_data P R (h ! r)") (auto simp: clean_data_ref_conv nth_append)

text \<open>Scenario 2 on a store that holds the one frame of the caller.\<close>

theorem caller_table_untouched_witness:
  "clean_data_ref demo_parser demo_round [scenario2] 0 = ([scenario2, scenario2_out], Inr 1) \<and>
   [scenario2, scenario2_out] ! 0 = [scenario2] ! 0 \<and>
   clean_data demo_parser demo_round ([scenario2] ! 0) = Inr ([scenario2, scenario2_out] ! 1)"
  using caller_table_untouched [OF _ clean_ref_scenario2] clean_ref_scenario2 by simp

text \<open>
  Counterexample to claim C9 as stated. After the call on Scenario 2 the caller's frame
  still has the unstripped \<^verbatim>\<open>" x "\<close> and the missing cell; it is not the cleaned table.
\<close>

theorem caller_table_not_mutated:
  "fst (clean_data_ref demo_parser demo_round [scenario2] 0) ! 0 = scenario2 \<and>
   clean_data demo_parser demo_round scenario2 = Inr scenario2_out \<and>
   scenario2 \<noteq> scenario2_out"
  using clean_ref_scenario2 clean_scenario2 by (simp add: scenario2_def scenario2_out_def)

end
